theory Spec2Isabelle
  imports Complex_Main "HOL-Library.Sublist" "HOL-Library.AList"
begin

section \<open>Four-player platformer: the simulation core\<close>

text \<open>
  A shallow embedding of \<^verbatim>\<open>src/components/four-player-platformer.tsx\<close>.
  JavaScript numbers are idealised as \<^typ>\<open>real\<close> (no rounding, no NaN); tile
  coordinates, which the source obtains with \<^verbatim>\<open>Math.floor\<close>, are \<^typ>\<open>int\<close>.
  A tile symbol read from the grid is a \<^typ>\<open>char option\<close>: \<open>None\<close> is the
  \<^verbatim>\<open>undefined\<close> that JavaScript returns when a row string is indexed past its end.
  Sound, particles and drawing only consume simulation state and are left out.
\<close>

subsection \<open>Data\<close>

record Vec2 =
  vec_x :: real
  vec_y :: real

record KeyBinding =
  k_left :: string
  k_right :: string
  k_jump :: string
  k_action :: string

record Player =
  pid :: int
  spawn :: Vec2
  pos :: Vec2
  vel :: Vec2
  pw :: real
  ph :: real
  onGround :: bool
  jumpLock :: bool
  alive :: bool
  exitReached :: bool
  controls :: KeyBinding
  facing :: int
  maxAirJumps :: int
  airJumpsLeft :: int
  isDashing :: bool
  dashUntil :: real
  dashCooldownUntil :: real
  abilityCooldownUntil :: real
  nextStepFxTime :: real

record Level =
  tiles :: "string list"
  lvl_w :: int
  lvl_h :: int
  tileSize :: real
  doorOpen :: bool

record TempPlatform =
  tp_tx :: int
  tp_ty :: int
  expiresAt :: real

record PlateState =
  ps_tx :: int
  ps_ty :: int
  pressed :: bool
  pressTime :: real

subsection \<open>Constants\<close>

definition TILE :: real where "TILE = 32"
definition GRAVITY :: real where "GRAVITY = 1800"
definition MOVE_SPEED :: real where "MOVE_SPEED = 280"
definition JUMP_SPEED :: real where "JUMP_SPEED = 700"
definition MAX_FALL :: real where "MAX_FALL = 1200"
definition FRICTION :: real where "FRICTION = 0.85"
definition AIR_DRAG :: real where "AIR_DRAG = 0.99"
definition SWIM_SPEED :: real where "SWIM_SPEED = 180"
definition SWIM_UP_FORCE :: real where "SWIM_UP_FORCE = 1800"
definition SWIM_MAX_UP :: real where "SWIM_MAX_UP = - 260"
definition SWIM_MAX_DOWN :: real where "SWIM_MAX_DOWN = 420"
definition WATER_DRAG_X :: real where "WATER_DRAG_X = 0.92"
definition DASH_SPEED :: real where "DASH_SPEED = 900"
definition DASH_DURATION :: real where "DASH_DURATION = 0.18"
definition DASH_COOLDOWN :: real where "DASH_COOLDOWN = 3"
definition EARTH_COOLDOWN :: real where "EARTH_COOLDOWN = 4"

definition LEVEL_MAP :: "string list" where
  "LEVEL_MAP =
   [''########################################'',
    ''#.................P....................#'',
    ''#.................#....................#'',
    ''#.................#.............bbbb...#'',
    ''#.................#....................#'',
    ''#...........#######....................#'',
    ''#..................#...................#'',
    ''#.............~~~~~#...................#'',
    ''#..................#...................#'',
    ''#...........######Z######..............#'',
    ''#..................#....#..............#'',
    ''#......###.........#....#..............#'',
    ''#..................#..................#'',
    ''#.1....O..O...2....#....#..............#'',
    ''#......#####.......#....#..............#'',
    ''#..................#..................#'',
    ''#...........######Z######..............#'',
    ''#..................#...................#'',
    ''#.....OOOOOO.......#........fane..b....#'',
    ''#..................#...................#'',
    ''#......###.........#...................#'',
    ''#..................#..................#'',
    ''#...3.........4....P...##OO..A.B.C...D.#'',
    ''########################################'']"

subsection \<open>Utilities\<close>

definition clamp :: "real \<Rightarrow> real \<Rightarrow> real \<Rightarrow> real" where
  "clamp v mn mx = max mn (min mx v)"

text \<open>Rectangles are \<open>(x, y, w, h)\<close>.\<close>

definition rectIntersect :: "real \<times> real \<times> real \<times> real \<Rightarrow> real \<times> real \<times> real \<times> real \<Rightarrow> bool" where
  "rectIntersect a b =
     (case a of (ax, ay, aw, ah) \<Rightarrow> case b of (bx, by, bw, bh) \<Rightarrow>
        \<not> (ax + aw \<le> bx \<or> ax \<ge> bx + bw \<or> ay + ah \<le> by \<or> ay \<ge> by + bh))"

definition worldToTile :: "real \<Rightarrow> real \<Rightarrow> real \<Rightarrow> int \<times> int" where
  "worldToTile x y ts = (\<lfloor>x / ts\<rfloor>, \<lfloor>y / ts\<rfloor>)"

definition createLevel :: Level where
  "createLevel =
     \<lparr>tiles = LEVEL_MAP, lvl_w = int (length (LEVEL_MAP ! 0)), lvl_h = int (length LEVEL_MAP),
      tileSize = TILE, doorOpen = False\<rparr>"

text \<open>
  \<^verbatim>\<open>str.substring(0, index) + char + str.substring(index + 1)\<close>: \<^verbatim>\<open>substring\<close> clamps its
  arguments to the string, so an index at or past the end appends.
\<close>

definition replaceChar :: "string \<Rightarrow> int \<Rightarrow> char \<Rightarrow> string" where
  "replaceChar str index c = take (nat index) str @ [c] @ drop (nat (index + 1)) str"

subsection \<open>Tile semantics\<close>

definition isSolid :: "char option \<Rightarrow> bool \<Rightarrow> bool" where
  "isSolid ch dOpen =
     (if ch = Some CHR ''#'' then True
      else if ch = Some CHR ''Z'' then \<not> dOpen
      else if ch = Some CHR ''b'' then True
      else if ch = Some CHR ''X'' then True
      else False)"

definition isPlate :: "char option \<Rightarrow> bool" where
  "isPlate ch = (ch = Some CHR ''P'')"

definition isColoredHole :: "char option \<Rightarrow> bool" where
  "isColoredHole ch =
     (ch = Some CHR ''f'' \<or> ch = Some CHR ''a'' \<or> ch = Some CHR ''e'' \<or> ch = Some CHR ''n'')"

definition safePlayerForColoredHole :: "char option \<Rightarrow> int option" where
  "safePlayerForColoredHole ch =
     (if ch = Some CHR ''f'' then Some 1
      else if ch = Some CHR ''a'' then Some 2
      else if ch = Some CHR ''e'' then Some 3
      else if ch = Some CHR ''n'' then Some 4
      else None)"

definition isLiquidForPlayer :: "char option \<Rightarrow> int \<Rightarrow> bool" where
  "isLiquidForPlayer ch playerId =
     (if ch = Some CHR ''W'' then True
      else if isColoredHole ch then safePlayerForColoredHole ch = Some playerId
      else False)"

definition isHazardFor :: "char option \<Rightarrow> int \<Rightarrow> bool" where
  "isHazardFor ch playerId =
     (if ch = Some CHR ''~'' then True
      else if ch = Some CHR ''O'' then True
      else if isColoredHole ch then safePlayerForColoredHole ch \<noteq> Some playerId
      else False)"

subsection \<open>Grid access\<close>

text \<open>
  \<^verbatim>\<open>level.tiles[ty][tx]\<close>. Indexing a row string past its end gives \<^verbatim>\<open>undefined\<close>
  (\<open>None\<close>). A missing row would make the source raise a TypeError; \<open>createLevel\<close>
  sets \<open>lvl_h\<close> to the number of rows and \<open>setTile\<close> keeps that number, so the
  theorems below assume \<open>levelOk\<close> wherever a row is read.
\<close>

definition charAtIdx :: "string \<Rightarrow> int \<Rightarrow> char option" where
  "charAtIdx row tx = (if 0 \<le> tx \<and> nat tx < length row then Some (row ! nat tx) else None)"

definition rowAt :: "string list \<Rightarrow> int \<Rightarrow> string" where
  "rowAt rows ty = (if 0 \<le> ty \<and> nat ty < length rows then rows ! nat ty else [])"

definition levelOk :: "Level \<Rightarrow> bool" where
  "levelOk level = (int (length (tiles level)) = lvl_h level \<and> 0 < tileSize level)"

definition tileAt :: "Level \<Rightarrow> int \<Rightarrow> int \<Rightarrow> char option" where
  "tileAt level tx ty =
     (if ty < 0 \<or> ty \<ge> lvl_h level \<or> tx < 0 \<or> tx \<ge> lvl_w level then Some CHR ''#''
      else charAtIdx (rowAt (tiles level) ty) tx)"

definition setTile :: "Level \<Rightarrow> int \<Rightarrow> int \<Rightarrow> char \<Rightarrow> Level" where
  "setTile level tx ty ch =
     (if ty < 0 \<or> ty \<ge> lvl_h level \<or> tx < 0 \<or> tx \<ge> lvl_w level then level
      else level\<lparr>tiles := (tiles level)[nat ty := replaceChar (rowAt (tiles level) ty) tx ch]\<rparr>)"

definition solidAt :: "Level \<Rightarrow> real \<Rightarrow> real \<Rightarrow> bool" where
  "solidAt level x y =
     (case worldToTile x y (tileSize level) of (tx, ty) \<Rightarrow>
        isSolid (tileAt level tx ty) (doorOpen level))"

definition tileCharAt :: "Level \<Rightarrow> real \<Rightarrow> real \<Rightarrow> char option" where
  "tileCharAt level x y =
     (case worldToTile x y (tileSize level) of (tx, ty) \<Rightarrow> tileAt level tx ty)"

subsection \<open>Shared simulation state\<close>

text \<open>
  The refs that the component keeps (\<^verbatim>\<open>levelRef\<close>, \<^verbatim>\<open>platesRef\<close>,
  \<^verbatim>\<open>tempPlatformsRef\<close>, \<^verbatim>\<open>prevActionDownRef\<close>, the double-tap set of
  \<^verbatim>\<open>useKeySet\<close>) and the \<^verbatim>\<open>deaths\<close> counter form the \<open>World\<close> that one
  actor update reads and writes. The plate map, a JavaScript \<^verbatim>\<open>Map\<close> keyed by
  \<^verbatim>\<open>`${x},${y}`\<close>, is an association list keyed by the coordinate pair, in insertion
  order. \<open>Game\<close> adds the actors and the React state of the component.
\<close>

record World =
  level :: Level
  plates :: "((int \<times> int) \<times> PlateState) list"
  tempPlatforms :: "TempPlatform list"
  prevActionDown :: "int \<Rightarrow> bool"
  doubleTap :: "string set"
  deaths :: int

record Game = World +
  players :: "Player list"
  paused :: bool
  won :: bool
  lastTime :: real
  modalCount :: int
  pausedBeforeModal :: bool
  showSettings :: bool
  showHelp :: bool

text \<open>
  Every call of \<^verbatim>\<open>performance.now()\<close> inside one actor update is a separate reading of
  the clock: in the dash block of \<open>updatePlayer\<close>, in \<open>tryStartWindDash\<close>, in
  \<open>pressPlateIfStanding\<close>, in the Earth branch of \<open>updatePlayer\<close>, in
  \<open>doEarthAction\<close> and in the footstep block.
\<close>

record Clock =
  t_dash :: real
  t_try :: real
  t_plate :: real
  t_ability :: real
  t_earth :: real
  t_step :: real

datatype ModalKind = Settings | Help

subsection \<open>Plates and the door\<close>

definition initPlates :: "Level \<Rightarrow> ((int \<times> int) \<times> PlateState) list" where
  "initPlates lv =
     concat (map (\<lambda>y. concat (map (\<lambda>x.
        if charAtIdx (rowAt (tiles lv) y) x = Some CHR ''P''
        then [((x, y), \<lparr>ps_tx = x, ps_ty = y, pressed = False, pressTime = 0\<rparr>)] else [])
        [0..<nat (lvl_w lv)])) [0..<nat (lvl_h lv)])"

definition updateDoorOpen :: "Level \<Rightarrow> Player list \<Rightarrow> Level" where
  "updateDoorOpen lv ps =
     (let onPlates = fold (\<lambda>p n.
            if isPlate (tileCharAt lv (vec_x (pos p)) (vec_y (pos p) + ph p / 2 + 1))
            then n + 1 else n) ps (0::int)
      in lv\<lparr>doorOpen := (onPlates \<ge> 2)\<rparr>)"

definition pressPlateAt :: "real \<Rightarrow> Level \<Rightarrow> int \<times> int \<Rightarrow>
    ((int \<times> int) \<times> PlateState) list \<Rightarrow> ((int \<times> int) \<times> PlateState) list" where
  "pressPlateAt now lv c m =
     (case c of (tx, ty) \<Rightarrow>
        if tileAt lv tx ty = Some CHR ''P'' then
          (case map_of m (tx, ty) of
             None \<Rightarrow> m
           | Some st \<Rightarrow>
               if \<not> pressed st
               then AList.update (tx, ty) (st\<lparr>pressed := True, pressTime := now\<rparr>) m
               else m)
        else m)"

definition pressPlateIfStanding :: "real \<Rightarrow> Level \<Rightarrow> Player \<Rightarrow>
    ((int \<times> int) \<times> PlateState) list \<Rightarrow> ((int \<times> int) \<times> PlateState) list" where
  "pressPlateIfStanding now lv p m =
     (let center = worldToTile (vec_x (pos p)) (vec_y (pos p)) (tileSize lv);
          feet = worldToTile (vec_x (pos p)) (vec_y (pos p) + ph p / 2 + 2) (tileSize lv)
      in fold (pressPlateAt now lv) [center, feet] m)"

subsection \<open>Abilities\<close>

definition breakTile :: "int \<times> int \<Rightarrow> Level \<Rightarrow> Level" where
  "breakTile c lv =
     (case c of (tx, ty) \<Rightarrow>
        let ch = tileAt lv tx ty
        in if ch = Some CHR ''b'' \<or> ch = Some CHR ''X'' then setTile lv tx ty CHR ''.'' else lv)"

definition doFireAction :: "Player \<Rightarrow> 'a World_scheme \<Rightarrow> 'a World_scheme" where
  "doFireAction p wd =
     (let lv = level wd;
          aheadX = vec_x (pos p) + real_of_int (facing p) * (pw p / 2 + 4);
          aheadY = vec_y (pos p);
          c1 = worldToTile aheadX aheadY (tileSize lv);
          c2 = worldToTile (vec_x (pos p)) (vec_y (pos p)) (tileSize lv);
          candidates = [c1, c2, (fst c2, snd c2 + 1), (fst c2, snd c2 - 1)];
          lv' = fold breakTile candidates lv
      in wd\<lparr>level := lv',
            tempPlatforms :=
              filter (\<lambda>tp. tileAt lv' (tp_tx tp) (tp_ty tp) = Some CHR ''X'') (tempPlatforms wd)\<rparr>)"

definition maxFill :: nat where "maxFill = 2000"

definition dirs8 :: "(int \<times> int) list" where
  "dirs8 = [(-1, -1), (0, -1), (1, -1), (-1, 0), (1, 0), (-1, 1), (0, 1), (1, 1)]"

definition window3x3 :: "(int \<times> int) list" where
  "window3x3 = [(-1, -1), (0, -1), (1, -1), (-1, 0), (0, 0), (1, 0), (-1, 1), (0, 1), (1, 1)]"

text \<open>One neighbour of the inner \<^verbatim>\<open>for (const [dx, dy] of dirs8)\<close> loop.\<close>

definition floodVisit :: "Level \<Rightarrow> int \<times> int \<Rightarrow> int \<times> int \<Rightarrow>
    (int \<times> int) set \<times> (int \<times> int) list \<Rightarrow> (int \<times> int) set \<times> (int \<times> int) list" where
  "floodVisit lv c d sq =
     (case sq of (seen, q) \<Rightarrow>
        let n = (fst c + fst d, snd c + snd d)
        in if n \<notin> seen \<and> tileAt lv (fst n) (snd n) = Some CHR ''O''
           then (insert n seen, q @ [n]) else (seen, q))"

text \<open>
  The \<^verbatim>\<open>while (q.length && convertedCount < maxFill)\<close> loop; the result is the level
  and \<^verbatim>\<open>convertedCount\<close>.
\<close>

function floodLoop :: "Level \<Rightarrow> (int \<times> int) list \<Rightarrow> (int \<times> int) set \<Rightarrow> nat \<Rightarrow> Level \<times> nat" where
  "floodLoop lv q seen convertedCount =
     (if q \<noteq> [] \<and> convertedCount < maxFill then
        (let c = hd q; rest = tl q
         in if tileAt lv (fst c) (snd c) \<noteq> Some CHR ''O'' then floodLoop lv rest seen convertedCount
            else
              (let lv' = setTile lv (fst c) (snd c) CHR ''W'';
                   sq = fold (floodVisit lv' c) dirs8 (seen, rest)
               in floodLoop lv' (snd sq) (fst sq) (Suc convertedCount)))
      else (lv, convertedCount))"
  by pat_completeness auto
termination
  by (relation "measures [\<lambda>(lv, q, seen, n). maxFill - n, \<lambda>(lv, q, seen, n). length q]") auto

definition waterSeeds :: "Level \<Rightarrow> Player \<Rightarrow> (int \<times> int) list" where
  "waterSeeds lv p =
     (let start = worldToTile (vec_x (pos p)) (vec_y (pos p)) (tileSize lv)
      in filter (\<lambda>u. tileAt lv (fst u) (snd u) = Some CHR ''O'')
           (map (\<lambda>d. (fst start + fst d, snd start + snd d)) window3x3))"

definition doWaterAction :: "Level \<Rightarrow> Player \<Rightarrow> Level" where
  "doWaterAction lv p =
     (let seeds = waterSeeds lv p
      in if length seeds = 0 then lv
         else fst (floodLoop lv seeds (set seeds) 0))"

definition canPlace :: "Level \<Rightarrow> int \<Rightarrow> int \<Rightarrow> bool" where
  "canPlace lv tx ty =
     (let ch = tileAt lv tx ty
      in ch = Some CHR ''.'' \<or> ch = Some CHR ''O'' \<or> ch = Some CHR ''W'' \<or> isColoredHole ch)"

text \<open>
  \<open>earthPlace\<close> is the first half of \<open>doEarthAction\<close>: the tile under the feet, else the
  tile ahead; \<open>earthEvict\<close> is the overflow branch, taken after a placement.
\<close>

definition earthPlace :: "real \<Rightarrow> Player \<Rightarrow> 'a World_scheme \<Rightarrow> (int \<times> int) option \<times> 'a World_scheme" where
  "earthPlace now p wd =
     (let lv = level wd;
          under = worldToTile (vec_x (pos p)) (vec_y (pos p) + ph p / 2 + 4) (tileSize lv);
          ahead = worldToTile (vec_x (pos p) + real_of_int (facing p) * (pw p / 2 + 8))
                    (vec_y (pos p)) (tileSize lv)
      in if canPlace lv (fst under) (snd under) then
           (Some under,
            wd\<lparr>level := setTile lv (fst under) (snd under) CHR ''X'',
               tempPlatforms := tempPlatforms wd @
                 [\<lparr>tp_tx = fst under, tp_ty = snd under, expiresAt = now + 7000\<rparr>]\<rparr>)
         else if canPlace lv (fst ahead) (snd ahead) then
           (Some ahead,
            wd\<lparr>level := setTile lv (fst ahead) (snd ahead) CHR ''X'',
               tempPlatforms := tempPlatforms wd @
                 [\<lparr>tp_tx = fst ahead, tp_ty = snd ahead, expiresAt = now + 7000\<rparr>]\<rparr>)
         else (None, wd))"

definition earthEvict :: "'a World_scheme \<Rightarrow> 'a World_scheme" where
  "earthEvict wd =
     (if length (tempPlatforms wd) > 12 then
        (case tempPlatforms wd of
           [] \<Rightarrow> wd
         | oldest # rest \<Rightarrow>
             wd\<lparr>tempPlatforms := rest,
                level := setTile (level wd) (tp_tx oldest) (tp_ty oldest) CHR ''.''\<rparr>)
      else wd)"

definition doEarthAction :: "real \<Rightarrow> Player \<Rightarrow> 'a World_scheme \<Rightarrow> bool \<times> 'a World_scheme" where
  "doEarthAction now p wd =
     (case earthPlace now p wd of
        (Some placedAt, wd') \<Rightarrow> (True, earthEvict wd')
      | (None, wd') \<Rightarrow> (False, wd'))"

subsection \<open>Movement and collision\<close>

definition moveAndCollide :: "Level \<Rightarrow> Player \<Rightarrow> real \<Rightarrow> Player" where
  "moveAndCollide lv p dt =
     (let nx = vec_x (pos p) + vec_x (vel p) * dt;
          ny = vec_y (pos p) + vec_y (vel p) * dt;
          halfW = pw p / 2;
          halfH = ph p / 2;
          hit_r = (solidAt lv (nx + halfW) (vec_y (pos p) - halfH)
                   \<or> solidAt lv (nx + halfW) (vec_y (pos p) + halfH - 1));
          hit_l = (solidAt lv (nx - halfW) (vec_y (pos p) - halfH)
                   \<or> solidAt lv (nx - halfW) (vec_y (pos p) + halfH - 1));
          nx' = (if vec_x (vel p) > 0 then
                   (if hit_r then real_of_int \<lfloor>(nx + halfW) / tileSize lv\<rfloor> * tileSize lv - halfW - 0.01
                    else nx)
                 else if vec_x (vel p) < 0 then
                   (if hit_l then real_of_int (\<lfloor>(nx - halfW) / tileSize lv\<rfloor> + 1) * tileSize lv + halfW + 0.01
                    else nx)
                 else nx);
          p1 = (if (vec_x (vel p) > 0 \<and> hit_r) \<or> (\<not> vec_x (vel p) > 0 \<and> vec_x (vel p) < 0 \<and> hit_l)
                then p\<lparr>vel := (vel p)\<lparr>vec_x := 0\<rparr>\<rparr> else p);
          p2 = p1\<lparr>onGround := False\<rparr>;
          hit_d = (solidAt lv (nx' - halfW + 1) (ny + halfH) \<or> solidAt lv (nx' + halfW - 1) (ny + halfH));
          hit_u = (solidAt lv (nx' - halfW + 1) (ny - halfH) \<or> solidAt lv (nx' + halfW - 1) (ny - halfH));
          ny' = (if vec_y (vel p2) > 0 then
                   (if hit_d then real_of_int \<lfloor>(ny + halfH) / tileSize lv\<rfloor> * tileSize lv - halfH - 0.01
                    else ny)
                 else if vec_y (vel p2) < 0 then
                   (if hit_u then real_of_int (\<lfloor>(ny - halfH) / tileSize lv\<rfloor> + 1) * tileSize lv + halfH + 0.01
                    else ny)
                 else ny);
          p3 = (if vec_y (vel p2) > 0 then
                  (if hit_d then p2\<lparr>vel := (vel p2)\<lparr>vec_y := 0\<rparr>, onGround := True, jumpLock := False,
                                   airJumpsLeft := maxAirJumps p2\<rparr>
                   else p2)
                else if vec_y (vel p2) < 0 then
                  (if hit_u then p2\<lparr>vel := (vel p2)\<lparr>vec_y := 0\<rparr>\<rparr> else p2)
                else p2)
      in p3\<lparr>pos := \<lparr>vec_x = nx', vec_y = ny'\<rparr>\<rparr>)"

subsection \<open>Wind dash\<close>

definition tryStartWindDash :: "string set \<Rightarrow> real \<Rightarrow> Player \<Rightarrow> string set \<Rightarrow> Player \<times> string set" where
  "tryStartWindDash pressedKeys now p dtap =
     (if pid p \<noteq> 4 then (p, dtap)
      else
        let l = k_left (controls p); r = k_right (controls p); j = k_jump (controls p)
        in if now < dashCooldownUntil p then (p, dtap - {l} - {r} - {j})
           else if isDashing p then (p, dtap)
           else
             (case find (\<lambda>k. k \<in> dtap) [l, r, j] of
                None \<Rightarrow> (p, dtap)
              | Some tappedKey \<Rightarrow>
                  if tappedKey = [] then (p, dtap)
                  else
                    let dx0 = (if tappedKey = l then - 1 else if tappedKey = r then 1 else 0 :: real);
                        dy0 = (if tappedKey = j then - 1 else 0 :: real);
                        dx1 = (if l \<in> pressedKeys then dx0 - 1 else dx0);
                        dx2 = (if r \<in> pressedKeys then dx1 + 1 else dx1);
                        dy1 = (if j \<in> pressedKeys then dy0 - 1 else dy0);
                        len = sqrt (dx2 * dx2 + dy1 * dy1);
                        dx = (if len = 0 then real_of_int (facing p) else dx2 / len);
                        dy = (if len = 0 then 0 else dy1 / len)
                    in (p\<lparr>isDashing := True,
                          dashUntil := now + DASH_DURATION * 1000,
                          dashCooldownUntil := now + DASH_COOLDOWN * 1000,
                          vel := \<lparr>vec_x = dx * DASH_SPEED, vec_y = dy * DASH_SPEED\<rparr>\<rparr>,
                        dtap - {tappedKey})))"

subsection \<open>One actor update\<close>

text \<open>
  \<open>updatePlayer\<close> of the source is one function; its blocks are named here in the order
  in which they run. \<open>centerChar\<close> is read once, before the actor moves, and is the
  symbol that both the liquid test and the hazard test use.
\<close>

definition dashStep :: "string set \<Rightarrow> Clock \<Rightarrow> Player \<Rightarrow> string set \<Rightarrow> Player \<times> string set" where
  "dashStep pressedKeys clk p dtap =
     (if pid p = 4 then
        (let p1 = (if isDashing p \<and> t_dash clk \<ge> dashUntil p then p\<lparr>isDashing := False\<rparr> else p)
         in if \<not> isDashing p1 then tryStartWindDash pressedKeys (t_try clk) p1 dtap else (p1, dtap))
      else (p, dtap))"

definition horizontalStep :: "bool \<Rightarrow> bool \<Rightarrow> bool \<Rightarrow> Player \<Rightarrow> Player" where
  "horizontalStep leftDown rightDown inLiquid p =
     (if \<not> isDashing p then
        (let speed = (if inLiquid then SWIM_SPEED else MOVE_SPEED)
         in if leftDown \<and> \<not> rightDown then p\<lparr>vel := (vel p)\<lparr>vec_x := - speed\<rparr>, facing := - 1\<rparr>
            else if rightDown \<and> \<not> leftDown then p\<lparr>vel := (vel p)\<lparr>vec_x := speed\<rparr>, facing := 1\<rparr>
            else
              (let v1 = (if onGround p \<and> \<not> inLiquid then vec_x (vel p) * FRICTION
                         else vec_x (vel p) * (if inLiquid then WATER_DRAG_X else AIR_DRAG));
                   v2 = (if \<bar>v1\<bar> < 6 then 0 else v1)
               in p\<lparr>vel := (vel p)\<lparr>vec_x := v2\<rparr>\<rparr>))
      else p)"

definition verticalStep :: "bool \<Rightarrow> bool \<Rightarrow> real \<Rightarrow> Player \<Rightarrow> Player" where
  "verticalStep jumpDown inLiquid dt p =
     (if \<not> isDashing p then
        (if inLiquid then
           (let v1 = vec_y (vel p) + GRAVITY * 0.15 * dt;
                v2 = (if jumpDown then v1 - SWIM_UP_FORCE * dt else v1)
            in p\<lparr>vel := (vel p)\<lparr>vec_y := clamp v2 SWIM_MAX_UP SWIM_MAX_DOWN\<rparr>\<rparr>)
         else p\<lparr>vel := (vel p)\<lparr>vec_y := clamp (vec_y (vel p) + GRAVITY * dt) (- JUMP_SPEED) MAX_FALL\<rparr>\<rparr>)
      else p)"

definition jumpStep :: "bool \<Rightarrow> bool \<Rightarrow> Player \<Rightarrow> Player" where
  "jumpStep jumpDown inLiquid p =
     (if \<not> isDashing p \<and> \<not> inLiquid then
        (let p1 = (if jumpDown then
                     (if onGround p \<and> \<not> jumpLock p
                      then p\<lparr>vel := (vel p)\<lparr>vec_y := - JUMP_SPEED\<rparr>, onGround := False, jumpLock := True\<rparr>
                      else if \<not> onGround p \<and> airJumpsLeft p > 0
                      then p\<lparr>vel := (vel p)\<lparr>vec_y := - JUMP_SPEED * 0.9\<rparr>,
                             airJumpsLeft := airJumpsLeft p - 1\<rparr>
                      else p)
                   else p)
         in if \<not> jumpDown \<and> onGround p1 then p1\<lparr>jumpLock := False\<rparr> else p1)
      else p)"

text \<open>The hazard block: the respawn, and \<^verbatim>\<open>setDeaths((d) => d + 1)\<close>.\<close>

definition hazardStep :: "char option \<Rightarrow> char option \<Rightarrow> Player \<Rightarrow> 'a World_scheme \<Rightarrow> Player \<times> 'a World_scheme" where
  "hazardStep centerChar belowChar p wd =
     (if isHazardFor centerChar (pid p) \<or> isHazardFor belowChar (pid p) then
        (p\<lparr>pos := \<lparr>vec_x = vec_x (spawn p), vec_y = vec_y (spawn p)\<rparr>,
           vel := \<lparr>vec_x = 0, vec_y = 0\<rparr>,
           alive := True,
           exitReached := False,
           airJumpsLeft := maxAirJumps p,
           isDashing := False,
           dashUntil := 0\<rparr>,
         wd\<lparr>deaths := deaths wd + 1\<rparr>)
      else (p, wd))"

definition abilityStep :: "bool \<Rightarrow> Clock \<Rightarrow> Player \<Rightarrow> 'a World_scheme \<Rightarrow> Player \<times> 'a World_scheme" where
  "abilityStep justPressedAction clk p wd =
     (if justPressedAction then
        (if pid p = 1 then (p, doFireAction p wd)
         else if pid p = 2 then (p, wd\<lparr>level := doWaterAction (level wd) p\<rparr>)
         else if pid p = 3 then
           (let now = t_ability clk
            in if now \<ge> abilityCooldownUntil p then
                 (case doEarthAction (t_earth clk) p wd of
                    (placed, wd') \<Rightarrow>
                      if placed then (p\<lparr>abilityCooldownUntil := now + EARTH_COOLDOWN * 1000\<rparr>, wd')
                      else (p, wd'))
               else (p, wd))
         else (p, wd))
      else (p, wd))"

definition footstepStep :: "bool \<Rightarrow> Clock \<Rightarrow> Player \<Rightarrow> Player" where
  "footstepStep inLiquid clk p =
     (let now = t_step clk; speedX = \<bar>vec_x (vel p)\<bar>
      in if \<not> inLiquid \<and> onGround p \<and> \<not> isDashing p \<and> speedX > 60 \<and> nextStepFxTime p \<le> now
         then p\<lparr>nextStepFxTime := now + 90\<rparr> else p)"

definition overlapsExit :: "Level \<Rightarrow> Player \<Rightarrow> Vec2 \<Rightarrow> bool" where
  "overlapsExit lv p ex =
     rectIntersect (vec_x (pos p) - pw p / 2, vec_y (pos p) - ph p / 2, pw p, ph p)
                   (vec_x ex, vec_y ex, tileSize lv, tileSize lv)"

fun exitScan :: "Level \<Rightarrow> Player \<Rightarrow> Vec2 list \<Rightarrow> bool" where
  "exitScan lv p [] = False"
| "exitScan lv p (ex # exs) = (if overlapsExit lv p ex then True else exitScan lv p exs)"

definition exitStep :: "(int \<Rightarrow> Vec2 list) \<Rightarrow> Level \<Rightarrow> Player \<Rightarrow> Player" where
  "exitStep exits lv p = p\<lparr>exitReached := exitScan lv p (exits (pid p))\<rparr>"

text \<open>
  \<open>movePhase\<close> is \<open>updatePlayer\<close> up to and including the plate check: the controls, the
  dash, the velocity updates, \<open>moveAndCollide\<close> and \<open>pressPlateIfStanding\<close>.
\<close>

definition movePhase :: "string set \<Rightarrow> Clock \<Rightarrow> real \<Rightarrow> Player \<Rightarrow> 'a World_scheme \<Rightarrow> Player \<times> 'a World_scheme" where
  "movePhase pressedKeys clk dt p wd =
     (let leftDown = (k_left (controls p) \<in> pressedKeys);
          rightDown = (k_right (controls p) \<in> pressedKeys);
          jumpDown = (k_jump (controls p) \<in> pressedKeys);
          actionDown = (k_action (controls p) \<noteq> [] \<and> k_action (controls p) \<in> pressedKeys);
          wd1 = wd\<lparr>prevActionDown := (prevActionDown wd)(pid p := actionDown)\<rparr>;
          centerChar = tileCharAt (level wd1) (vec_x (pos p)) (vec_y (pos p));
          inLiquid = isLiquidForPlayer centerChar (pid p);
          pd = dashStep pressedKeys clk p (doubleTap wd1);
          wd2 = wd1\<lparr>doubleTap := snd pd\<rparr>;
          p2 = horizontalStep leftDown rightDown inLiquid (fst pd);
          p3 = verticalStep jumpDown inLiquid dt p2;
          p4 = jumpStep jumpDown inLiquid p3;
          p5 = moveAndCollide (level wd2) p4 dt
      in (p5, wd2\<lparr>plates := pressPlateIfStanding (t_plate clk) (level wd2) p5 (plates wd2)\<rparr>))"

definition updatePlayer :: "(int \<Rightarrow> Vec2 list) \<Rightarrow> string set \<Rightarrow> Clock \<Rightarrow> real \<Rightarrow> Player \<Rightarrow>
    'a World_scheme \<Rightarrow> Player \<times> 'a World_scheme" where
  "updatePlayer exits pressedKeys clk dt p wd =
     (let actionDown = (k_action (controls p) \<noteq> [] \<and> k_action (controls p) \<in> pressedKeys);
          prevAction = prevActionDown wd (pid p);
          justPressedAction = (actionDown \<and> \<not> prevAction);
          centerChar = tileCharAt (level wd) (vec_x (pos p)) (vec_y (pos p));
          inLiquid = isLiquidForPlayer centerChar (pid p);
          mv = movePhase pressedKeys clk dt p wd;
          p5 = fst mv;
          belowChar = tileCharAt (level (snd mv)) (vec_x (pos p5)) (vec_y (pos p5) + ph p5 / 2 + 2);
          hz = hazardStep centerChar belowChar p5 (snd mv);
          ab = abilityStep justPressedAction clk (fst hz) (snd hz);
          p8 = footstepStep inLiquid clk (fst ab)
      in (exitStep exits (level (snd ab)) p8, snd ab))"

subsection \<open>The frame loop\<close>

fun updatePlayers :: "(int \<Rightarrow> Vec2 list) \<Rightarrow> string set \<Rightarrow> (nat \<Rightarrow> Clock) \<Rightarrow> real \<Rightarrow> nat \<Rightarrow>
    Player list \<Rightarrow> 'a World_scheme \<Rightarrow> Player list \<times> 'a World_scheme" where
  "updatePlayers exits pressedKeys clks dt i [] wd = ([], wd)"
| "updatePlayers exits pressedKeys clks dt i (p # ps) wd =
     (case updatePlayer exits pressedKeys (clks i) dt p wd of
        (p', wd') \<Rightarrow>
          (case updatePlayers exits pressedKeys clks dt (Suc i) ps wd' of
             (ps', wd'') \<Rightarrow> (p' # ps', wd'')))"

text \<open>The expiry sweep at the head of the loop body: the kept entries and the level.\<close>

fun expirePlatforms :: "real \<Rightarrow> TempPlatform list \<Rightarrow> Level \<Rightarrow> TempPlatform list \<times> Level" where
  "expirePlatforms now [] lv = ([], lv)"
| "expirePlatforms now (tp # tps) lv =
     (if now \<ge> expiresAt tp then
        expirePlatforms now tps
          (if tileAt lv (tp_tx tp) (tp_ty tp) = Some CHR ''X''
           then setTile lv (tp_tx tp) (tp_ty tp) CHR ''.'' else lv)
      else (case expirePlatforms now tps lv of (remaining, lv') \<Rightarrow> (tp # remaining, lv')))"

definition allPlatesPressed :: "((int \<times> int) \<times> PlateState) list \<Rightarrow> bool" where
  "allPlatesPressed m = fold (\<lambda>kv b. if \<not> pressed (snd kv) then False else b) m True"

text \<open>
  The body of \<open>loop\<close> for a mounted canvas (the source returns at once when the canvas
  or its context is missing). \<open>t\<close> is the timestamp of the animation frame, \<open>now\<close> the
  clock reading of the expiry sweep. Drawing is left out. \<open>frameDt\<close> is the clamped
  step, \<open>sweepAndDoor\<close> the expiry sweep followed by \<open>updateDoorOpen\<close>, \<open>winCheck\<close>
  the win condition at the end of the body.
\<close>

definition frameDt :: "real \<Rightarrow> Game \<Rightarrow> real" where
  "frameDt t g =
     (let last = (if lastTime g = 0 then t else lastTime g)
      in clamp ((t - last) / 1000) 0 (1 / 30))"

definition sweepAndDoor :: "real \<Rightarrow> Game \<Rightarrow> Game" where
  "sweepAndDoor now g =
     (let sw = expirePlatforms now (tempPlatforms g) (level g);
          g2 = g\<lparr>tempPlatforms := fst sw, level := snd sw\<rparr>
      in g2\<lparr>level := updateDoorOpen (level g2) (players g2)\<rparr>)"

definition winCheck :: "Game \<Rightarrow> Game" where
  "winCheck g =
     (let allPlayersAtGates = list_all exitReached (players g)
      in if allPlayersAtGates \<and> allPlatesPressed (plates g)
         then g\<lparr>won := True, paused := True\<rparr> else g)"

definition loop :: "(int \<Rightarrow> Vec2 list) \<Rightarrow> string set \<Rightarrow> (nat \<Rightarrow> Clock) \<Rightarrow> real \<Rightarrow> real \<Rightarrow> Game \<Rightarrow> Game" where
  "loop exits pressedKeys clks now t g =
     (let dt = frameDt t g;
          g1 = g\<lparr>lastTime := t\<rparr>
      in if \<not> paused g1 \<and> \<not> won g1 then
           (let g3 = sweepAndDoor now g1;
                up = updatePlayers exits pressedKeys clks dt 0 (players g3) g3
            in winCheck ((snd up)\<lparr>players := fst up\<rparr>))
         else g1)"

subsection \<open>Session controls\<close>

definition createPlayers :: "(int \<Rightarrow> Vec2) \<Rightarrow> (int \<Rightarrow> KeyBinding) \<Rightarrow> Player list" where
  "createPlayers spawns ctrls =
     map (\<lambda>i. \<lparr>pid = i,
               spawn = \<lparr>vec_x = vec_x (spawns i), vec_y = vec_y (spawns i)\<rparr>,
               pos = \<lparr>vec_x = vec_x (spawns i), vec_y = vec_y (spawns i)\<rparr>,
               vel = \<lparr>vec_x = 0, vec_y = 0\<rparr>,
               pw = 22, ph = 28,
               onGround = False, jumpLock = False, alive = True, exitReached = False,
               controls = ctrls i, facing = 1, maxAirJumps = 0, airJumpsLeft = 0,
               isDashing = False, dashUntil = 0, dashCooldownUntil = 0,
               abilityCooldownUntil = 0, nextStepFxTime = 0\<rparr>) [1, 2, 3, 4]"

definition resetGame :: "(int \<Rightarrow> Vec2) \<Rightarrow> (int \<Rightarrow> KeyBinding) \<Rightarrow> real \<Rightarrow> Game \<Rightarrow> Game" where
  "resetGame spawns bindings now g =
     g\<lparr>level := createLevel,
       tempPlatforms := [],
       plates := initPlates createLevel,
       players := createPlayers spawns bindings,
       prevActionDown := (\<lambda>i. False),
       won := False,
       deaths := 0,
       paused := False,
       lastTime := now\<rparr>"

definition togglePause :: "Game \<Rightarrow> Game" where
  "togglePause g = g\<lparr>paused := \<not> paused g\<rparr>"

text \<open>
  \<open>handleModalOpenChange\<close> is built with \<^verbatim>\<open>useCallback(..., [])\<close>, so the function the
  dialogs call is the one created by the first render, and the \<^verbatim>\<open>paused\<close> in its body
  is the constant of that render. The first argument is that captured value;
  \<^verbatim>\<open>useState(false)\<close> makes it \<open>False\<close>, which gives \<open>onOpenChange\<close>, the handler passed
  to both dialogs.
\<close>

definition handleModalOpenChange :: "bool \<Rightarrow> bool \<Rightarrow> ModalKind \<Rightarrow> Game \<Rightarrow> Game" where
  "handleModalOpenChange pausedCaptured next which g =
     (let prevCount = modalCount g;
          nextCount = prevCount + (if next then 1 else - 1);
          g1 = g\<lparr>modalCount := nextCount\<rparr>;
          g2 = (if next \<and> prevCount = 0
                then g1\<lparr>pausedBeforeModal := pausedCaptured, paused := True\<rparr> else g1);
          g3 = (if \<not> next \<and> nextCount = 0 then g2\<lparr>paused := pausedBeforeModal g2\<rparr> else g2)
      in if which = Settings then g3\<lparr>showSettings := next\<rparr> else g3\<lparr>showHelp := next\<rparr>)"

definition onOpenChange :: "bool \<Rightarrow> ModalKind \<Rightarrow> Game \<Rightarrow> Game" where
  "onOpenChange next which g = handleModalOpenChange False next which g"

subsection \<open>Sample scenes\<close>

text \<open>
  Small concrete states on which the theorems are instantiated. \<open>defaultBindings\<close> are the
  initial key bindings of the component; the fourth actor has no action key.
\<close>

definition defaultBindings :: "int \<Rightarrow> KeyBinding" where
  "defaultBindings i =
     (if i = 1 then \<lparr>k_left = ''a'', k_right = ''d'', k_jump = ''w'', k_action = ''s''\<rparr>
      else if i = 2 then \<lparr>k_left = ''j'', k_right = ''l'', k_jump = ''i'', k_action = ''k''\<rparr>
      else if i = 3 then \<lparr>k_left = ''ArrowLeft'', k_right = ''ArrowRight'', k_jump = ''ArrowUp'',
                           k_action = ''ArrowDown''\<rparr>
      else \<lparr>k_left = ''z'', k_right = ''c'', k_jump = ''x'', k_action = []\<rparr>)"

definition zeroClock :: Clock where
  "zeroClock = \<lparr>t_dash = 0, t_try = 0, t_plate = 0, t_ability = 0, t_earth = 0, t_step = 0\<rparr>"

definition plateLevel :: Level where
  "plateLevel = \<lparr>tiles = [''#####'', ''#.PA#'', ''#####''], lvl_w = 5, lvl_h = 3,
                  tileSize = 32, doorOpen = False\<rparr>"

definition plateScene :: Game where
  "plateScene =
     \<lparr>level = plateLevel,
      plates = [((2, 1), \<lparr>ps_tx = 2, ps_ty = 1, pressed = False, pressTime = 0\<rparr>)],
      tempPlatforms = [], prevActionDown = (\<lambda>i. False), doubleTap = {}, deaths = 0,
      players = createPlayers (\<lambda>i. \<lparr>vec_x = 80, vec_y = 40\<rparr>) defaultBindings,
      paused = False, won = False, lastTime = 1000, modalCount = 0, pausedBeforeModal = False,
      showSettings = False, showHelp = False\<rparr>"

definition gateScene :: Game where
  "gateScene =
     \<lparr>level = plateLevel,
      plates = [((2, 1), \<lparr>ps_tx = 2, ps_ty = 1, pressed = True, pressTime = 7\<rparr>)],
      tempPlatforms = [], prevActionDown = (\<lambda>i. False), doubleTap = {}, deaths = 0,
      players = take 1 (createPlayers (\<lambda>i. \<lparr>vec_x = 100, vec_y = 49\<rparr>) defaultBindings),
      paused = False, won = False, lastTime = 1000, modalCount = 0, pausedBeforeModal = False,
      showSettings = False, showHelp = False\<rparr>"

definition actor :: "int \<Rightarrow> Vec2 \<Rightarrow> Vec2 \<Rightarrow> Player" where
  "actor i sp ps =
     \<lparr>pid = i, spawn = sp, pos = ps, vel = \<lparr>vec_x = 0, vec_y = 0\<rparr>, pw = 22, ph = 28,
      onGround = False, jumpLock = False, alive = True, exitReached = False,
      controls = defaultBindings i, facing = 1, maxAirJumps = 0, airJumpsLeft = 0,
      isDashing = False, dashUntil = 0, dashCooldownUntil = 0, abilityCooldownUntil = 0,
      nextStepFxTime = 0\<rparr>"

text \<open>
  A poison pool beside a walkway. \<open>walker\<close> is the Fire actor one step left of the pool,
  in the air; \<open>windSoaked\<close> is the Wind actor in the middle of a dash with its centre
  inside the pool, \<open>earthSoaked\<close> the Earth actor there with a running cooldown.
\<close>

definition poolLevel :: Level where
  "poolLevel = \<lparr>tiles = [''######'', ''#..~.#'', ''#....#'', ''######''], lvl_w = 6, lvl_h = 4,
                 tileSize = 32, doorOpen = False\<rparr>"

definition poolWorld :: World where
  "poolWorld = \<lparr>level = poolLevel, plates = [], tempPlatforms = [], prevActionDown = (\<lambda>i. False),
                 doubleTap = {}, deaths = 0\<rparr>"

definition walker :: Player where
  "walker = actor 1 \<lparr>vec_x = 48, vec_y = 80\<rparr> \<lparr>vec_x = 93, vec_y = 48\<rparr>"

definition windSoaked :: Player where
  "windSoaked = (actor 4 \<lparr>vec_x = 48, vec_y = 80\<rparr> \<lparr>vec_x = 100, vec_y = 49\<rparr>)
              \<lparr>vel := \<lparr>vec_x = 900, vec_y = 0\<rparr>, jumpLock := True,
               isDashing := True, dashUntil := 5180, dashCooldownUntil := 8000\<rparr>"

definition earthSoaked :: Player where
  "earthSoaked = (actor 3 \<lparr>vec_x = 48, vec_y = 80\<rparr> \<lparr>vec_x = 100, vec_y = 49\<rparr>)
              \<lparr>vel := \<lparr>vec_x = 0, vec_y = 45\<rparr>, jumpLock := True, abilityCooldownUntil := 9000\<rparr>"

definition dashClock :: Clock where
  "dashClock = \<lparr>t_dash = 5100, t_try = 5100, t_plate = 5100, t_ability = 5100, t_earth = 5100,
                t_step = 5100\<rparr>"

text \<open>
  A corridor two tiles high for the Earth actor: \<open>digger k\<close> stands in the upper row above
  column \<open>k\<close>, and \<open>thirteen\<close> is a run of thirteen placement calls along the corridor.
\<close>

definition earthLevel :: Level where
  "earthLevel = \<lparr>tiles = [''################'', ''#..............#'', ''#..............#'',
                           ''################''],
                  lvl_w = 16, lvl_h = 4, tileSize = 32, doorOpen = False\<rparr>"

definition earthWorld :: World where
  "earthWorld = \<lparr>level = earthLevel, plates = [], tempPlatforms = [], prevActionDown = (\<lambda>i. False),
                  doubleTap = {}, deaths = 0\<rparr>"

definition digger :: "int \<Rightarrow> Player" where
  "digger k = actor 3 \<lparr>vec_x = 48, vec_y = 48\<rparr> \<lparr>vec_x = real_of_int (32 * k + 16), vec_y = 48\<rparr>"

definition thirteen :: "(real \<times> Player) list" where
  "thirteen = map (\<lambda>k. (real_of_int (1000 * k), digger k)) [1, 2, 3, 4, 5, 6, 7, 8, 9, 10, 11, 12, 13]"

definition earthScene :: Game where
  "earthScene =
     \<lparr>level = earthLevel, plates = [], tempPlatforms = [], prevActionDown = (\<lambda>i. False),
      doubleTap = {}, deaths = 0, players = [digger 1],
      paused = False, won = False, lastTime = 5000, modalCount = 0, pausedBeforeModal = False,
      showSettings = False, showHelp = False\<rparr>"

text \<open>
  Dark holes around the Water actor: two of them touch its 3 by 3 window, a third is
  connected to those, two more lie behind a gap. \<open>dryActor\<close> stands away from every hole.
\<close>

definition holeLevel :: Level where
  "holeLevel = \<lparr>tiles = [''#########'', ''#.OO.O..#'', ''#O...O..#'', ''#########''], lvl_w = 9, lvl_h = 4,
                 tileSize = 32, doorOpen = False\<rparr>"

definition swimmer :: Player where
  "swimmer = actor 2 \<lparr>vec_x = 48, vec_y = 48\<rparr> \<lparr>vec_x = 48, vec_y = 48\<rparr>"

definition dryActor :: Player where
  "dryActor = actor 2 \<lparr>vec_x = 48, vec_y = 48\<rparr> \<lparr>vec_x = 240, vec_y = 48\<rparr>"

subsection \<open>Notions used by the statements\<close>

text \<open>Two levels of the same shape: dimensions, cell size, door flag and row count agree.\<close>

definition sameShape :: "Level \<Rightarrow> Level \<Rightarrow> bool" where
  "sameShape lv lv' =
     (lvl_w lv' = lvl_w lv \<and> lvl_h lv' = lvl_h lv \<and> tileSize lv' = tileSize lv
      \<and> doorOpen lv' = doorOpen lv \<and> length (tiles lv') = length (tiles lv))"

text \<open>
  The condition of the hazard block of \<open>updatePlayer\<close>, as the source evaluates it:
  \<^verbatim>\<open>centerChar\<close> is the symbol read at the actor's centre at the start of the update,
  \<^verbatim>\<open>belowChar\<close> the symbol two pixels below the feet of the actor after
  \<open>moveAndCollide\<close>.
\<close>

definition hazardContact :: "string set \<Rightarrow> Clock \<Rightarrow> real \<Rightarrow> Player \<Rightarrow> 'a World_scheme \<Rightarrow> bool" where
  "hazardContact pressedKeys clk dt p wd =
     (let centerChar = tileCharAt (level wd) (vec_x (pos p)) (vec_y (pos p));
          p5 = fst (movePhase pressedKeys clk dt p wd);
          belowChar = tileCharAt (level wd) (vec_x (pos p5)) (vec_y (pos p5) + ph p5 / 2 + 2)
      in isHazardFor centerChar (pid p) \<or> isHazardFor belowChar (pid p))"

text \<open>
  The registry is in order when the level is well formed, every entry's tile holds the
  earth-platform symbol and no two entries name the same tile.
\<close>

definition regCells :: "TempPlatform list \<Rightarrow> (int \<times> int) list" where
  "regCells reg = map (\<lambda>tp. (tp_tx tp, tp_ty tp)) reg"

definition registryOk :: "'a World_scheme \<Rightarrow> bool" where
  "registryOk wd =
     (levelOk (level wd)
      \<and> (\<forall>tp \<in> set (tempPlatforms wd). tileAt (level wd) (tp_tx tp) (tp_ty tp) = Some CHR ''X'')
      \<and> distinct (regCells (tempPlatforms wd)))"

text \<open>
  \<open>placeAll\<close> runs \<open>doEarthAction\<close> once per input, in order, and is \<open>None\<close> as soon as a
  call places nothing: the successive successful placements of the scenario.
\<close>

fun placeAll :: "(real \<times> Player) list \<Rightarrow> 'a World_scheme \<Rightarrow> 'a World_scheme option" where
  "placeAll [] wd = Some wd"
| "placeAll ((now, p) # ins) wd =
     (case doEarthAction now p wd of
        (True, wd') \<Rightarrow> placeAll ins wd'
      | (False, wd') \<Rightarrow> None)"

text \<open>
  The states of a session: a mounted component with a well-formed level and an empty
  registry, then any sequence of frames, resets, pause toggles and dialog changes.
\<close>

inductive reachableGame :: "(int \<Rightarrow> Vec2 list) \<Rightarrow> Game \<Rightarrow> bool" for exits where
  start: "levelOk (level g) \<Longrightarrow> tempPlatforms g = [] \<Longrightarrow> reachableGame exits g"
| frame: "reachableGame exits g \<Longrightarrow> reachableGame exits (loop exits pressedKeys clks now t g)"
| reset: "reachableGame exits g \<Longrightarrow> reachableGame exits (resetGame spawns bindings now g)"
| pause: "reachableGame exits g \<Longrightarrow> reachableGame exits (togglePause g)"
| modal: "reachableGame exits g \<Longrightarrow> reachableGame exits (onOpenChange next which g)"

text \<open>
  The dark-hole tiles of a level reachable from a set of seeds: the seeds that are dark
  holes, and every dark hole that is one of the eight neighbours of a reachable one.
\<close>

inductive_set holeReach :: "Level \<Rightarrow> (int \<times> int) set \<Rightarrow> (int \<times> int) set" for lv :: Level and S :: "(int \<times> int) set" where
  seed: "c \<in> S \<Longrightarrow> tileAt lv (fst c) (snd c) = Some CHR ''O'' \<Longrightarrow> c \<in> holeReach lv S"
| step: "c \<in> holeReach lv S \<Longrightarrow> d \<in> set dirs8 \<Longrightarrow>
         tileAt lv (fst c + fst d) (snd c + snd d) = Some CHR ''O'' \<Longrightarrow>
         (fst c + fst d, snd c + snd d) \<in> holeReach lv S"

text \<open>
  The invariant of the flood loop, against the level \<open>lv0\<close> the fill started from:
  \<open>C\<close> is the set of converted tiles.
\<close>

definition floodInv :: "Level \<Rightarrow> (int \<times> int) set \<Rightarrow> Level \<Rightarrow> (int \<times> int) list \<Rightarrow> (int \<times> int) set \<Rightarrow> nat \<Rightarrow>
    (int \<times> int) set \<Rightarrow> bool" where
  "floodInv lv0 S lv q seen n C =
     (levelOk lv \<and> finite C \<and> card C = n \<and> n \<le> maxFill
      \<and> C \<subseteq> seen \<and> seen \<subseteq> holeReach lv0 S \<and> S \<inter> {c. tileAt lv0 (fst c) (snd c) = Some CHR ''O''} \<subseteq> seen
      \<and> set q \<subseteq> seen \<and> seen \<subseteq> C \<union> set q
      \<and> (\<forall>x y. tileAt lv x y = (if (x, y) \<in> C then Some CHR ''W'' else tileAt lv0 x y))
      \<and> (\<forall>c \<in> C. \<forall>d \<in> set dirs8. tileAt lv0 (fst c + fst d) (snd c + snd d) = Some CHR ''O''
             \<longrightarrow> (fst c + fst d, snd c + snd d) \<in> seen))"

section \<open>Basic facts about the grid\<close>

declare floodLoop.simps [simp del]

lemma setTile_frame [simp]:
  "lvl_w (setTile lv a b c) = lvl_w lv"
  "lvl_h (setTile lv a b c) = lvl_h lv"
  "tileSize (setTile lv a b c) = tileSize lv"
  "doorOpen (setTile lv a b c) = doorOpen lv"
  "length (tiles (setTile lv a b c)) = length (tiles lv)"
  by (simp_all add: setTile_def)

lemma levelOk_setTile [simp]: "levelOk (setTile lv a b c) = levelOk lv"
  by (simp add: levelOk_def)

lemma charAtIdx_replaceChar:
  assumes "0 \<le> a" "nat a < length row"
  shows "charAtIdx (replaceChar row a c) tx = (if tx = a then Some c else charAtIdx row tx)"
proof -
  have len: "length (replaceChar row a c) = length row"
    using assms by (simp add: replaceChar_def nat_add_distrib)
  have nth: "replaceChar row a c = row[nat a := c]"
    using assms by (simp add: replaceChar_def upd_conv_take_nth_drop nat_add_distrib)
  show ?thesis
    using assms by (auto simp: charAtIdx_def nth nth_list_update)
qed

lemma tileAt_in_row:
  assumes "tileAt lv a b = Some c0" "c0 \<noteq> CHR ''#''"
  shows "0 \<le> a \<and> a < lvl_w lv \<and> 0 \<le> b \<and> b < lvl_h lv \<and> nat a < length (rowAt (tiles lv) b)"
  using assms by (auto simp: tileAt_def charAtIdx_def split: if_splits)

lemma tileAt_setTile:
  assumes ok: "levelOk lv" and rd: "tileAt lv a b = Some c0" and nw: "c0 \<noteq> CHR ''#''"
  shows "tileAt (setTile lv a b c) tx ty = (if tx = a \<and> ty = b then Some c else tileAt lv tx ty)"
proof -
  from tileAt_in_row [OF rd nw]
  have inb: "0 \<le> a" "a < lvl_w lv" "0 \<le> b" "b < lvl_h lv" "nat a < length (rowAt (tiles lv) b)"
    by auto
  from ok inb have bl: "nat b < length (tiles lv)"
    unfolding levelOk_def by linarith
  have st: "setTile lv a b c = lv\<lparr>tiles := (tiles lv)[nat b := replaceChar (rowAt (tiles lv) b) a c]\<rparr>"
    using inb by (simp add: setTile_def)
  show ?thesis
  proof (cases "ty < 0 \<or> ty \<ge> lvl_h lv \<or> tx < 0 \<or> tx \<ge> lvl_w lv")
    case True
    then show ?thesis using inb by (auto simp: tileAt_def st)
  next
    case False
    show ?thesis
    proof (cases "ty = b")
      case True
      then show ?thesis
        using False inb bl charAtIdx_replaceChar [OF inb(1) inb(5), of c tx]
        by (simp add: tileAt_def st rowAt_def)
    next
      case ne: False
      with False inb have "nat ty \<noteq> nat b" by auto
      then show ?thesis
        using False ne by (simp add: tileAt_def st rowAt_def)
    qed
  qed
qed


lemma sameShape_refl [simp]: "sameShape lv lv"
  by (simp add: sameShape_def)

lemma sameShape_trans: "sameShape a b \<Longrightarrow> sameShape b c \<Longrightarrow> sameShape a c"
  by (simp add: sameShape_def)

lemma sameShape_setTile [simp]: "sameShape lv (setTile lv a b c)"
  by (simp add: sameShape_def)

lemma sameShape_setTile' : "sameShape lv lv' \<Longrightarrow> sameShape lv (setTile lv' a b c)"
  by (simp add: sameShape_def)

lemma sameShape_levelOk: "sameShape lv lv' \<Longrightarrow> levelOk lv' = levelOk lv"
  by (simp add: sameShape_def levelOk_def)

lemma sameShape_breakTile: "sameShape lv lv' \<Longrightarrow> sameShape lv (breakTile c lv')"
  by (simp add: breakTile_def Let_def sameShape_setTile' split: prod.splits)

lemma sameShape_fold_breakTile: "sameShape lv lv' \<Longrightarrow> sameShape lv (fold breakTile cs lv')"
  by (induction cs arbitrary: lv') (simp_all add: sameShape_breakTile)

lemma sameShape_floodLoop: "sameShape lv0 lv \<Longrightarrow> sameShape lv0 (fst (floodLoop lv q seen n))"
proof (induction lv q seen n rule: floodLoop.induct)
  case (1 lv q seen n)
  show ?case
  proof (cases "q \<noteq> [] \<and> n < maxFill")
    case False
    then show ?thesis using "1.prems" by (auto simp: floodLoop.simps [of lv q seen n])
  next
    case True
    show ?thesis
    proof (cases "tileAt lv (fst (hd q)) (snd (hd q)) \<noteq> Some CHR ''O''")
      case t: True
      from "1.IH"(1) [OF True refl refl t "1.prems"] True t
      show ?thesis by (simp add: floodLoop.simps [of lv q seen n])
    next
      case f: False
      from "1.IH"(2) [OF True refl refl f refl refl sameShape_setTile' [OF "1.prems"]] True f
      show ?thesis by (simp add: floodLoop.simps [of lv q seen n] Let_def)
    qed
  qed
qed

lemma sameShape_doWaterAction: "sameShape lv (doWaterAction lv p)"
  by (simp add: doWaterAction_def Let_def sameShape_floodLoop)

lemma sameShape_doFireAction: "sameShape (level wd) (level (doFireAction p wd))"
  by (simp add: doFireAction_def Let_def sameShape_breakTile)

lemma sameShape_earthPlace: "sameShape (level wd) (level (snd (earthPlace now p wd)))"
  by (simp add: earthPlace_def Let_def)

lemma sameShape_earthEvict: "sameShape (level wd) (level (earthEvict wd))"
  by (simp add: earthEvict_def split: list.splits)

lemma sameShape_doEarthAction: "sameShape (level wd) (level (snd (doEarthAction now p wd)))"
proof -
  obtain r wd' where e: "earthPlace now p wd = (r, wd')" by (cases "earthPlace now p wd")
  have s1: "sameShape (level wd) (level wd')"
    using sameShape_earthPlace [of wd now p] e by simp
  show ?thesis
    using e sameShape_trans [OF s1 sameShape_earthEvict [of wd']] s1
    by (cases r) (simp_all add: doEarthAction_def)
qed

lemma sameShape_abilityStep: "sameShape (level wd) (level (snd (abilityStep jp clk p wd)))"
  using sameShape_doEarthAction [of wd "t_earth clk" p]
  by (auto simp: abilityStep_def Let_def sameShape_doFireAction sameShape_doWaterAction
      split: prod.splits)

lemma level_hazardStep [simp]: "level (snd (hazardStep cc bc p wd)) = level wd"
  by (simp add: hazardStep_def)

lemma level_movePhase [simp]: "level (snd (movePhase pk clk dt p wd)) = level wd"
  by (simp add: movePhase_def Let_def)

lemma level_updatePlayer:
  "level (snd (updatePlayer ex pk clk dt p wd))
   = level (snd (abilityStep (k_action (controls p) \<noteq> [] \<and> k_action (controls p) \<in> pk \<and> \<not> prevActionDown wd (pid p)) clk
       (fst (hazardStep (tileCharAt (level wd) (vec_x (pos p)) (vec_y (pos p)))
              (tileCharAt (level wd) (vec_x (pos (fst (movePhase pk clk dt p wd))))
                 (vec_y (pos (fst (movePhase pk clk dt p wd))) + ph (fst (movePhase pk clk dt p wd)) / 2 + 2))
              (fst (movePhase pk clk dt p wd)) (snd (movePhase pk clk dt p wd))))
       (snd (hazardStep (tileCharAt (level wd) (vec_x (pos p)) (vec_y (pos p)))
              (tileCharAt (level wd) (vec_x (pos (fst (movePhase pk clk dt p wd))))
                 (vec_y (pos (fst (movePhase pk clk dt p wd))) + ph (fst (movePhase pk clk dt p wd)) / 2 + 2))
              (fst (movePhase pk clk dt p wd)) (snd (movePhase pk clk dt p wd))))))"
  by (simp add: updatePlayer_def Let_def conj_assoc)

lemma sameShape_updatePlayer: "sameShape (level wd) (level (snd (updatePlayer ex pk clk dt p wd)))"
  unfolding level_updatePlayer
  using sameShape_abilityStep [where wd = "snd (hazardStep cc bc pp (snd (movePhase pk clk dt p wd)))" for cc bc pp]
  by simp

lemma sameShape_updatePlayers:
  "sameShape (level wd) (level (snd (updatePlayers ex pk clks dt i ps wd)))"
proof (induction ps arbitrary: i wd)
  case Nil
  then show ?case by simp
next
  case (Cons p ps)
  obtain p' wd' where u: "updatePlayer ex pk (clks i) dt p wd = (p', wd')"
    by (cases "updatePlayer ex pk (clks i) dt p wd")
  obtain ps' wd'' where us: "updatePlayers ex pk clks dt (Suc i) ps wd' = (ps', wd'')"
    by (cases "updatePlayers ex pk clks dt (Suc i) ps wd'")
  have "sameShape (level wd) (level wd')"
    using sameShape_updatePlayer [of wd ex pk "clks i" dt p] u by simp
  moreover have "sameShape (level wd') (level wd'')"
    using Cons.IH [of wd' "Suc i"] us by simp
  ultimately show ?case
    using u us by (simp add: sameShape_trans)
qed


section \<open>The frame loop: door and win condition\<close>

lemma fold_count:
  "fold (\<lambda>p n. if P p then n + 1 else n) ps (k::int) = k + int (length (filter P ps))"
  by (induction ps arbitrary: k) simp_all

lemma doorOpen_updateDoorOpen:
  "doorOpen (updateDoorOpen lv ps) \<longleftrightarrow>
     2 \<le> length (filter (\<lambda>p. isPlate (tileCharAt lv (vec_x (pos p)) (vec_y (pos p) + ph p / 2 + 1))) ps)"
  by (simp add: updateDoorOpen_def Let_def fold_count)

lemma sameShape_updateDoorOpen_tiles [simp]:
  "tiles (updateDoorOpen lv ps) = tiles lv" "lvl_w (updateDoorOpen lv ps) = lvl_w lv"
  "lvl_h (updateDoorOpen lv ps) = lvl_h lv" "tileSize (updateDoorOpen lv ps) = tileSize lv"
  by (simp_all add: updateDoorOpen_def Let_def)

lemma expirePlatforms_keep:
  "\<not> now \<ge> expiresAt tp \<Longrightarrow>
   snd (expirePlatforms now (tp # tps) lv) = snd (expirePlatforms now tps lv)
   \<and> fst (expirePlatforms now (tp # tps) lv) = tp # fst (expirePlatforms now tps lv)"
  by (simp split: prod.splits)

lemma sameShape_expirePlatforms: "sameShape lv0 lv \<Longrightarrow> sameShape lv0 (snd (expirePlatforms now tps lv))"
proof (induction tps arbitrary: lv)
  case Nil
  then show ?case by simp
next
  case (Cons tp tps)
  show ?case
  proof (cases "now \<ge> expiresAt tp")
    case True
    then show ?thesis
      using Cons.IH [OF sameShape_setTile' [OF Cons.prems]] Cons.IH [OF Cons.prems] by simp
  next
    case False
    then show ?thesis
      using Cons.IH [OF Cons.prems] expirePlatforms_keep [where now = now and tp = tp and tps = tps and lv = lv] by simp
  qed
qed

lemma expirePlatforms_cell:
  "levelOk lv \<Longrightarrow>
   tileAt (snd (expirePlatforms now tps lv)) tx ty = tileAt lv tx ty
   \<or> (tileAt lv tx ty = Some CHR ''X'' \<and> tileAt (snd (expirePlatforms now tps lv)) tx ty = Some CHR ''.'')"
proof (induction tps arbitrary: lv)
  case Nil
  then show ?case by simp
next
  case (Cons tp tps)
  show ?case
  proof (cases "now \<ge> expiresAt tp \<and> tileAt lv (tp_tx tp) (tp_ty tp) = Some CHR ''X''")
    case True
    let ?lv = "setTile lv (tp_tx tp) (tp_ty tp) CHR ''.''"
    have rd: "tileAt ?lv tx ty = (if tx = tp_tx tp \<and> ty = tp_ty tp then Some CHR ''.'' else tileAt lv tx ty)"
      using tileAt_setTile [OF Cons.prems(1), of "tp_tx tp" "tp_ty tp" "CHR ''X''" "CHR ''.''" tx ty]
        True by simp
    have ok: "levelOk ?lv" using Cons.prems by simp
    have ex: "snd (expirePlatforms now (tp # tps) lv) = snd (expirePlatforms now tps ?lv)"
      using True by simp
    show ?thesis
      unfolding ex using Cons.IH [OF ok] rd True by (auto split: if_splits)
  next
    case False
    have ex: "snd (expirePlatforms now (tp # tps) lv) = snd (expirePlatforms now tps lv)"
      using False expirePlatforms_keep [where now = now and tp = tp and tps = tps and lv = lv] by auto
    show ?thesis
      unfolding ex using Cons.IH [OF Cons.prems] .
  qed
qed

lemma isPlate_after_sweep:
  assumes "levelOk lv"
  shows "isPlate (tileCharAt (snd (expirePlatforms now tps lv)) x y) = isPlate (tileCharAt lv x y)"
proof -
  let ?lv = "snd (expirePlatforms now tps lv)"
  obtain tx ty where w: "worldToTile x y (tileSize lv) = (tx, ty)"
    by (cases "worldToTile x y (tileSize lv)")
  have ts: "tileSize ?lv = tileSize lv"
    using sameShape_expirePlatforms [OF sameShape_refl, of lv now tps] by (simp add: sameShape_def)
  show ?thesis
    using expirePlatforms_cell [OF assms, of now tps tx ty] w ts
    by (auto simp: tileCharAt_def isPlate_def)
qed

lemma doorOpen_updatePlayers:
  "doorOpen (level (snd (updatePlayers ex pk clks dt i ps wd))) = doorOpen (level wd)"
  using sameShape_updatePlayers [of wd ex pk clks dt i ps] by (simp add: sameShape_def)

lemma level_winCheck [simp]: "level (winCheck g) = level g"
  by (simp add: winCheck_def Let_def)

lemma door_loop:
  assumes "\<not> paused g" "\<not> won g" "levelOk (level g)"
  shows "doorOpen (level (loop ex pk clks now t (g\<lparr>plates := pl\<rparr>))) \<longleftrightarrow>
           2 \<le> length (filter (\<lambda>p. isPlate (tileCharAt (level g) (vec_x (pos p)) (vec_y (pos p) + ph p / 2 + 1)))
                         (players g))"
proof -
  let ?g1 = "g\<lparr>plates := pl, lastTime := t\<rparr>"
  let ?g3 = "sweepAndDoor now ?g1"
  have l: "level (loop ex pk clks now t (g\<lparr>plates := pl\<rparr>))
           = level (snd (updatePlayers ex pk clks (frameDt t (g\<lparr>plates := pl\<rparr>)) 0 (players ?g3) ?g3))"
    using assms by (simp add: loop_def Let_def)
  have d: "doorOpen (level ?g3) \<longleftrightarrow>
           2 \<le> length (filter (\<lambda>p. isPlate (tileCharAt (snd (expirePlatforms now (tempPlatforms g) (level g)))
                                   (vec_x (pos p)) (vec_y (pos p) + ph p / 2 + 1))) (players g))"
    by (simp add: sweepAndDoor_def Let_def doorOpen_updateDoorOpen)
  show ?thesis
    unfolding l doorOpen_updatePlayers d isPlate_after_sweep [OF assms(3)] ..
qed


lemma exitScan_iff: "exitScan lv p es \<longleftrightarrow> (\<exists>e \<in> set es. overlapsExit lv p e)"
  by (induction es) auto

lemma overlapsExit_cong:
  "tileSize lv = tileSize lv' \<Longrightarrow> pos p = pos p' \<Longrightarrow> pw p = pw p' \<Longrightarrow> ph p = ph p' \<Longrightarrow>
   overlapsExit lv p e = overlapsExit lv' p' e"
  by (simp add: overlapsExit_def)

lemma allPlatesPressed_fold:
  "fold (\<lambda>kv b. if \<not> pressed (snd kv) then False else b) m b0 \<longleftrightarrow> b0 \<and> (\<forall>kv \<in> set m. pressed (snd kv))"
  by (induction m arbitrary: b0) auto

lemma allPlatesPressed_iff: "allPlatesPressed m \<longleftrightarrow> (\<forall>kv \<in> set m. pressed (snd kv))"
  by (simp add: allPlatesPressed_def allPlatesPressed_fold)

lemma updatePlayer_exit:
  assumes "updatePlayer ex pk clk dt p wd = (p', wd')"
  shows "exitReached p' \<longleftrightarrow> (\<exists>e \<in> set (ex (pid p')). overlapsExit (level wd') p' e)"
proof -
  from assms obtain p8 where p': "p' = exitStep ex (level wd') p8"
    by (auto simp: updatePlayer_def Let_def)
  have "exitReached p' = exitScan (level wd') p8 (ex (pid p8))"
    by (simp add: p' exitStep_def)
  moreover have "pid p' = pid p8" by (simp add: p' exitStep_def)
  moreover have "overlapsExit (level wd') p' e = overlapsExit (level wd') p8 e" for e
    by (rule overlapsExit_cong) (simp_all add: p' exitStep_def)
  ultimately show ?thesis by (simp add: exitScan_iff)
qed

lemma updatePlayers_exit:
  "updatePlayers ex pk clks dt i ps wd = (ps', wd') \<Longrightarrow>
   \<forall>p' \<in> set ps'. exitReached p' \<longleftrightarrow> (\<exists>e \<in> set (ex (pid p')). overlapsExit (level wd') p' e)"
proof (induction ps arbitrary: i wd ps' wd')
  case Nil
  then show ?case by simp
next
  case (Cons p ps)
  obtain q wd1 where u: "updatePlayer ex pk (clks i) dt p wd = (q, wd1)"
    by (cases "updatePlayer ex pk (clks i) dt p wd")
  obtain qs wd2 where us: "updatePlayers ex pk clks dt (Suc i) ps wd1 = (qs, wd2)"
    by (cases "updatePlayers ex pk clks dt (Suc i) ps wd1")
  from Cons.prems u us have eq: "ps' = q # qs" "wd' = wd2" by auto
  have ts: "tileSize (level wd2) = tileSize (level wd1)"
    using sameShape_updatePlayers [of wd1 ex pk clks dt "Suc i" ps] us by (simp add: sameShape_def)
  have "overlapsExit (level wd2) q e = overlapsExit (level wd1) q e" for e
    by (rule overlapsExit_cong) (simp_all add: ts)
  then have hd: "exitReached q \<longleftrightarrow> (\<exists>e \<in> set (ex (pid q)). overlapsExit (level wd2) q e)"
    using updatePlayer_exit [OF u] by simp
  show ?case
    using hd Cons.IH [OF us] by (simp add: eq)
qed

lemma more_doFireAction [simp]: "World.more (doFireAction p wd) = World.more wd"
  by (simp add: doFireAction_def Let_def)

lemma more_earthPlace [simp]: "World.more (snd (earthPlace now p wd)) = World.more wd"
  by (simp add: earthPlace_def Let_def)

lemma more_earthEvict [simp]: "World.more (earthEvict wd) = World.more wd"
  by (simp add: earthEvict_def split: list.splits)

lemma more_doEarthAction [simp]: "World.more (snd (doEarthAction now p wd)) = World.more wd"
proof -
  obtain r wd' where e: "earthPlace now p wd = (r, wd')" by (cases "earthPlace now p wd")
  have "World.more wd' = World.more wd"
    using more_earthPlace [of now p wd] e by simp
  then show ?thesis
    using e by (cases r) (simp_all add: doEarthAction_def)
qed

lemma more_abilityStep [simp]: "World.more (snd (abilityStep jp clk p wd)) = World.more wd"
  by (simp add: abilityStep_def Let_def split_beta)

lemma more_hazardStep [simp]: "World.more (snd (hazardStep cc bc p wd)) = World.more wd"
  by (simp add: hazardStep_def)

lemma more_movePhase [simp]: "World.more (snd (movePhase pk clk dt p wd)) = World.more wd"
  by (simp add: movePhase_def Let_def)

lemma more_updatePlayer [simp]: "World.more (snd (updatePlayer ex pk clk dt p wd)) = World.more wd"
  by (simp add: updatePlayer_def Let_def)

lemma updatePlayers_Cons:
  "snd (updatePlayers ex pk clks dt i (p # ps) wd)
     = snd (updatePlayers ex pk clks dt (Suc i) ps (snd (updatePlayer ex pk (clks i) dt p wd)))"
  "fst (updatePlayers ex pk clks dt i (p # ps) wd)
     = fst (updatePlayer ex pk (clks i) dt p wd)
       # fst (updatePlayers ex pk clks dt (Suc i) ps (snd (updatePlayer ex pk (clks i) dt p wd)))"
  by (simp_all add: split_beta)

lemma more_updatePlayers [simp]: "World.more (snd (updatePlayers ex pk clks dt i ps wd)) = World.more wd"
proof (induction ps arbitrary: i wd)
  case Nil
  then show ?case by simp
next
  case (Cons p ps)
  show ?case
    unfolding updatePlayers_Cons by (simp add: Cons.IH)
qed

lemma game_more:
  fixes g g' :: Game
  assumes "World.more g' = World.more g"
  shows "won g' = won g \<and> paused g' = paused g \<and> players g' = players g \<and> lastTime g' = lastTime g
       \<and> modalCount g' = modalCount g \<and> pausedBeforeModal g' = pausedBeforeModal g
       \<and> showSettings g' = showSettings g \<and> showHelp g' = showHelp g"
  using assms by (cases g, cases g') simp


section \<open>Frame facts of one actor update\<close>

lemma tryStartWindDash_frame [simp]:
  "pid (fst (tryStartWindDash pk now p dtap)) = pid p"
  "spawn (fst (tryStartWindDash pk now p dtap)) = spawn p"
  "maxAirJumps (fst (tryStartWindDash pk now p dtap)) = maxAirJumps p"
  "abilityCooldownUntil (fst (tryStartWindDash pk now p dtap)) = abilityCooldownUntil p"
  "ph (fst (tryStartWindDash pk now p dtap)) = ph p"
  "pw (fst (tryStartWindDash pk now p dtap)) = pw p"
  "pos (fst (tryStartWindDash pk now p dtap)) = pos p"
  by (simp_all add: tryStartWindDash_def Let_def split: option.splits)

lemma dashStep_frame [simp]:
  "pid (fst (dashStep pk clk p dtap)) = pid p"
  "spawn (fst (dashStep pk clk p dtap)) = spawn p"
  "maxAirJumps (fst (dashStep pk clk p dtap)) = maxAirJumps p"
  "abilityCooldownUntil (fst (dashStep pk clk p dtap)) = abilityCooldownUntil p"
  "ph (fst (dashStep pk clk p dtap)) = ph p"
  "pw (fst (dashStep pk clk p dtap)) = pw p"
  "pos (fst (dashStep pk clk p dtap)) = pos p"
  by (simp_all add: dashStep_def Let_def)

lemma horizontalStep_frame [simp]:
  "pid (horizontalStep l r w p) = pid p"
  "spawn (horizontalStep l r w p) = spawn p"
  "maxAirJumps (horizontalStep l r w p) = maxAirJumps p"
  "abilityCooldownUntil (horizontalStep l r w p) = abilityCooldownUntil p"
  "ph (horizontalStep l r w p) = ph p"
  "pw (horizontalStep l r w p) = pw p"
  "pos (horizontalStep l r w p) = pos p"
  by (simp_all add: horizontalStep_def Let_def)

lemma verticalStep_frame [simp]:
  "pid (verticalStep j w dt p) = pid p"
  "spawn (verticalStep j w dt p) = spawn p"
  "maxAirJumps (verticalStep j w dt p) = maxAirJumps p"
  "abilityCooldownUntil (verticalStep j w dt p) = abilityCooldownUntil p"
  "ph (verticalStep j w dt p) = ph p"
  "pw (verticalStep j w dt p) = pw p"
  "pos (verticalStep j w dt p) = pos p"
  by (simp_all add: verticalStep_def Let_def)

lemma jumpStep_frame [simp]:
  "pid (jumpStep j w p) = pid p"
  "spawn (jumpStep j w p) = spawn p"
  "maxAirJumps (jumpStep j w p) = maxAirJumps p"
  "abilityCooldownUntil (jumpStep j w p) = abilityCooldownUntil p"
  "ph (jumpStep j w p) = ph p"
  "pw (jumpStep j w p) = pw p"
  "pos (jumpStep j w p) = pos p"
  by (simp_all add: jumpStep_def Let_def)

lemma moveAndCollide_frame [simp]:
  "pid (moveAndCollide lv p dt) = pid p"
  "spawn (moveAndCollide lv p dt) = spawn p"
  "maxAirJumps (moveAndCollide lv p dt) = maxAirJumps p"
  "abilityCooldownUntil (moveAndCollide lv p dt) = abilityCooldownUntil p"
  "ph (moveAndCollide lv p dt) = ph p"
  "pw (moveAndCollide lv p dt) = pw p"
  "dashCooldownUntil (moveAndCollide lv p dt) = dashCooldownUntil p"
  by (simp_all add: moveAndCollide_def Let_def if_distrib [where f = pid] if_distrib [where f = spawn]
      if_distrib [where f = maxAirJumps] if_distrib [where f = abilityCooldownUntil]
      if_distrib [where f = ph] if_distrib [where f = pw] if_distrib [where f = dashCooldownUntil]
      cong: if_cong split del: if_split)

lemma movePhase_frame [simp]:
  "pid (fst (movePhase pk clk dt p wd)) = pid p"
  "spawn (fst (movePhase pk clk dt p wd)) = spawn p"
  "maxAirJumps (fst (movePhase pk clk dt p wd)) = maxAirJumps p"
  "abilityCooldownUntil (fst (movePhase pk clk dt p wd)) = abilityCooldownUntil p"
  "ph (fst (movePhase pk clk dt p wd)) = ph p"
  "pw (fst (movePhase pk clk dt p wd)) = pw p"
  "deaths (snd (movePhase pk clk dt p wd)) = deaths wd"
  "tempPlatforms (snd (movePhase pk clk dt p wd)) = tempPlatforms wd"
  by (simp_all add: movePhase_def Let_def)


lemma deaths_doFireAction [simp]: "deaths (doFireAction p wd) = deaths wd"
  by (simp add: doFireAction_def Let_def)

lemma deaths_earthPlace [simp]: "deaths (snd (earthPlace now p wd)) = deaths wd"
  by (simp add: earthPlace_def Let_def)

lemma deaths_earthEvict [simp]: "deaths (earthEvict wd) = deaths wd"
  by (simp add: earthEvict_def split: list.splits)

lemma doEarthAction_snd:
  "snd (doEarthAction now p wd)
   = (if fst (earthPlace now p wd) = None then snd (earthPlace now p wd)
      else earthEvict (snd (earthPlace now p wd)))"
  "fst (doEarthAction now p wd) = (fst (earthPlace now p wd) \<noteq> None)"
  by (auto simp: doEarthAction_def split: prod.splits option.splits)

lemma deaths_doEarthAction [simp]: "deaths (snd (doEarthAction now p wd)) = deaths wd"
  by (simp add: doEarthAction_snd)

lemma deaths_abilityStep [simp]: "deaths (snd (abilityStep jp clk p wd)) = deaths wd"
  by (simp add: abilityStep_def Let_def split_beta)

lemma abilityStep_fst:
  "fst (abilityStep jp clk p wd) = p\<lparr>abilityCooldownUntil := abilityCooldownUntil (fst (abilityStep jp clk p wd))\<rparr>"
  by (simp add: abilityStep_def Let_def split_beta)

lemma footstepStep_eq:
  "footstepStep w clk p = p\<lparr>nextStepFxTime := nextStepFxTime (footstepStep w clk p)\<rparr>"
  by (simp add: footstepStep_def Let_def)

lemma updatePlayer_after_hazard:
  "\<exists>a n e. fst (updatePlayer ex pk clk dt p wd)
     = (fst (hazardStep (tileCharAt (level wd) (vec_x (pos p)) (vec_y (pos p)))
              (tileCharAt (level wd) (vec_x (pos (fst (movePhase pk clk dt p wd))))
                 (vec_y (pos (fst (movePhase pk clk dt p wd))) + ph (fst (movePhase pk clk dt p wd)) / 2 + 2))
              (fst (movePhase pk clk dt p wd)) (snd (movePhase pk clk dt p wd))))
       \<lparr>abilityCooldownUntil := a, nextStepFxTime := n, exitReached := e\<rparr>"
  "deaths (snd (updatePlayer ex pk clk dt p wd))
     = deaths (snd (hazardStep (tileCharAt (level wd) (vec_x (pos p)) (vec_y (pos p)))
              (tileCharAt (level wd) (vec_x (pos (fst (movePhase pk clk dt p wd))))
                 (vec_y (pos (fst (movePhase pk clk dt p wd))) + ph (fst (movePhase pk clk dt p wd)) / 2 + 2))
              (fst (movePhase pk clk dt p wd)) (snd (movePhase pk clk dt p wd))))"
proof -
  define mv where "mv = movePhase pk clk dt p wd"
  define hz where "hz = hazardStep (tileCharAt (level wd) (vec_x (pos p)) (vec_y (pos p)))
                  (tileCharAt (level wd) (vec_x (pos (fst mv))) (vec_y (pos (fst mv)) + ph (fst mv) / 2 + 2))
                  (fst mv) (snd mv)"
  let ?jp = "(k_action (controls p) \<noteq> [] \<and> k_action (controls p) \<in> pk) \<and> \<not> prevActionDown wd (pid p)"
  let ?il = "isLiquidForPlayer (tileCharAt (level wd) (vec_x (pos p)) (vec_y (pos p))) (pid p)"
  let ?ab = "abilityStep ?jp clk (fst hz) (snd hz)"
  have r: "updatePlayer ex pk clk dt p wd
           = (exitStep ex (level (snd ?ab)) (footstepStep ?il clk (fst ?ab)), snd ?ab)"
    by (simp add: updatePlayer_def Let_def mv_def hz_def)
  have "fst (updatePlayer ex pk clk dt p wd)
        = (fst hz)\<lparr>abilityCooldownUntil := abilityCooldownUntil (fst ?ab),
                   nextStepFxTime := nextStepFxTime (footstepStep ?il clk (fst ?ab)),
                   exitReached := exitScan (level (snd ?ab)) (footstepStep ?il clk (fst ?ab))
                                    (ex (pid (footstepStep ?il clk (fst ?ab))))\<rparr>"
    unfolding r fst_conv exitStep_def
    by (subst footstepStep_eq, subst abilityStep_fst) simp
  then show "\<exists>a n e. fst (updatePlayer ex pk clk dt p wd)
     = (fst (hazardStep (tileCharAt (level wd) (vec_x (pos p)) (vec_y (pos p)))
              (tileCharAt (level wd) (vec_x (pos (fst (movePhase pk clk dt p wd))))
                 (vec_y (pos (fst (movePhase pk clk dt p wd))) + ph (fst (movePhase pk clk dt p wd)) / 2 + 2))
              (fst (movePhase pk clk dt p wd)) (snd (movePhase pk clk dt p wd))))
       \<lparr>abilityCooldownUntil := a, nextStepFxTime := n, exitReached := e\<rparr>"
    unfolding hz_def mv_def by blast
  show "deaths (snd (updatePlayer ex pk clk dt p wd))
     = deaths (snd (hazardStep (tileCharAt (level wd) (vec_x (pos p)) (vec_y (pos p)))
              (tileCharAt (level wd) (vec_x (pos (fst (movePhase pk clk dt p wd))))
                 (vec_y (pos (fst (movePhase pk clk dt p wd))) + ph (fst (movePhase pk clk dt p wd)) / 2 + 2))
              (fst (movePhase pk clk dt p wd)) (snd (movePhase pk clk dt p wd))))"
    by (simp add: r hz_def mv_def)
qed

text \<open>Unfolding rules for running the model on a concrete scene.\<close>

lemmas eval_defs = loop_def Let_def frameDt_def sweepAndDoor_def clamp_def
   createPlayers_def defaultBindings_def updateDoorOpen_def tileCharAt_def worldToTile_def
   tileAt_def setTile_def replaceChar_def rowAt_def charAtIdx_def isPlate_def updatePlayer_def movePhase_def
   dashStep_def horizontalStep_def verticalStep_def jumpStep_def moveAndCollide_def solidAt_def isSolid_def
   isLiquidForPlayer_def isColoredHole_def safePlayerForColoredHole_def isHazardFor_def hazardStep_def
   abilityStep_def footstepStep_def exitStep_def
   overlapsExit_def rectIntersect_def pressPlateIfStanding_def pressPlateAt_def
   zeroClock_def winCheck_def allPlatesPressed_def
   GRAVITY_def JUMP_SPEED_def MAX_FALL_def MOVE_SPEED_def FRICTION_def AIR_DRAG_def
   SWIM_SPEED_def WATER_DRAG_X_def SWIM_UP_FORCE_def SWIM_MAX_UP_def SWIM_MAX_DOWN_def
   dashClock_def actor_def

lemmas eval_congs = if_weak_cong let_weak_cong prod.case_cong_weak option.case_cong_weak

section \<open>The platform registry\<close>

lemma floodLoop_cell:
  "levelOk lv \<Longrightarrow>
   tileAt (fst (floodLoop lv q seen n)) tx ty = tileAt lv tx ty
   \<or> (tileAt lv tx ty = Some CHR ''O'' \<and> tileAt (fst (floodLoop lv q seen n)) tx ty = Some CHR ''W'')"
proof (induction lv q seen n rule: floodLoop.induct)
  case (1 lv q seen n)
  show ?case
  proof (cases "q \<noteq> [] \<and> n < maxFill")
    case False
    then show ?thesis by (auto simp: floodLoop.simps [of lv q seen n])
  next
    case True
    show ?thesis
    proof (cases "tileAt lv (fst (hd q)) (snd (hd q)) \<noteq> Some CHR ''O''")
      case t: True
      from "1.IH"(1) [OF True refl refl t "1.prems"] True t
      show ?thesis by (simp add: floodLoop.simps [of lv q seen n])
    next
      case f: False
      let ?lv = "setTile lv (fst (hd q)) (snd (hd q)) CHR ''W''"
      let ?sq = "fold (floodVisit ?lv (hd q)) dirs8 (seen, tl q)"
      have ok: "levelOk ?lv" using "1.prems" by simp
      have rd: "tileAt ?lv tx ty = (if tx = fst (hd q) \<and> ty = snd (hd q) then Some CHR ''W'' else tileAt lv tx ty)"
        using tileAt_setTile [OF "1.prems", of "fst (hd q)" "snd (hd q)" "CHR ''O''" "CHR ''W''" tx ty] f
        by simp
      have ih: "tileAt (fst (floodLoop ?lv (snd ?sq) (fst ?sq) (Suc n))) tx ty = tileAt ?lv tx ty
        \<or> (tileAt ?lv tx ty = Some CHR ''O'' \<and> tileAt (fst (floodLoop ?lv (snd ?sq) (fst ?sq) (Suc n))) tx ty = Some CHR ''W'')"
        by (rule "1.IH"(2) [OF True refl refl f refl refl ok])
      have un: "floodLoop lv q seen n = floodLoop ?lv (snd ?sq) (fst ?sq) (Suc n)"
        using True f by (simp add: floodLoop.simps [of lv q seen n] Let_def)
      show ?thesis
        unfolding un using ih rd f by (auto split: if_splits)
    qed
  qed
qed

lemma doWaterAction_cell:
  "levelOk lv \<Longrightarrow>
   tileAt (doWaterAction lv p) tx ty = tileAt lv tx ty
   \<or> (tileAt lv tx ty = Some CHR ''O'' \<and> tileAt (doWaterAction lv p) tx ty = Some CHR ''W'')"
  using floodLoop_cell [of lv "waterSeeds lv p" "set (waterSeeds lv p)" 0 tx ty]
  by (simp add: doWaterAction_def Let_def)

lemma levelOk_cong: "sameShape lv lv' \<Longrightarrow> levelOk lv \<Longrightarrow> levelOk lv'"
  by (simp add: sameShape_levelOk)

lemma breakTile_cell:
  "levelOk lv \<Longrightarrow>
   tileAt (breakTile c lv) tx ty = tileAt lv tx ty \<or> tileAt (breakTile c lv) tx ty = Some CHR ''.''"
proof -
  assume ok: "levelOk lv"
  obtain a b where c: "c = (a, b)" by (cases c)
  show ?thesis
  proof (cases "tileAt lv a b = Some CHR ''b'' \<or> tileAt lv a b = Some CHR ''X''")
    case False
    then show ?thesis by (simp add: breakTile_def c Let_def)
  next
    case True
    then obtain c0 where c0: "tileAt lv a b = Some c0" "c0 \<noteq> CHR ''#''" by auto
    show ?thesis
      using True tileAt_setTile [OF ok c0, of "CHR ''.''" tx ty]
      by (auto simp: breakTile_def c Let_def)
  qed
qed

lemma registryOk_doFireAction:
  assumes "registryOk wd"
  shows "registryOk (doFireAction p wd)"
    and "tempPlatforms (doFireAction p wd)
         = filter (\<lambda>tp. tileAt (level (doFireAction p wd)) (tp_tx tp) (tp_ty tp) = Some CHR ''X'')
             (tempPlatforms wd)"
proof -
  have ok: "levelOk (level (doFireAction p wd))"
    using assms sameShape_doFireAction [of wd p] by (simp add: registryOk_def sameShape_levelOk)
  show f: "tempPlatforms (doFireAction p wd)
         = filter (\<lambda>tp. tileAt (level (doFireAction p wd)) (tp_tx tp) (tp_ty tp) = Some CHR ''X'')
             (tempPlatforms wd)"
    by (simp add: doFireAction_def Let_def)
  have "distinct (regCells (tempPlatforms (doFireAction p wd)))"
    unfolding f using assms by (simp add: registryOk_def regCells_def distinct_map_filter)
  then show "registryOk (doFireAction p wd)"
    using ok f by (auto simp: registryOk_def)
qed


lemma registryOk_water:
  assumes "registryOk wd"
  shows "registryOk (wd\<lparr>level := doWaterAction (level wd) p\<rparr>)"
proof -
  have ok: "levelOk (level wd)" using assms by (simp add: registryOk_def)
  have "levelOk (doWaterAction (level wd) p)"
    using ok sameShape_doWaterAction [of "level wd" p] by (simp add: sameShape_levelOk)
  moreover have "tileAt (doWaterAction (level wd) p) (tp_tx tp) (tp_ty tp) = Some CHR ''X''"
    if "tp \<in> set (tempPlatforms wd)" for tp
    using doWaterAction_cell [OF ok, of p "tp_tx tp" "tp_ty tp"] assms that
    by (auto simp: registryOk_def)
  ultimately show ?thesis using assms by (simp add: registryOk_def)
qed

lemma canPlace_cell:
  assumes "canPlace lv a b"
  shows "\<exists>c0. tileAt lv a b = Some c0 \<and> c0 \<noteq> CHR ''#'' \<and> c0 \<noteq> CHR ''X''"
  using assms by (auto simp: canPlace_def Let_def isColoredHole_def)

text \<open>The world after a successful placement at cell c, before the overflow check.\<close>

lemma earthPlace_cases:
  "(fst (earthPlace now p wd) = None \<and> snd (earthPlace now p wd) = wd)
   \<or> (\<exists>a b. fst (earthPlace now p wd) = Some (a, b) \<and> canPlace (level wd) a b
        \<and> snd (earthPlace now p wd)
            = wd\<lparr>level := setTile (level wd) a b CHR ''X'',
                 tempPlatforms := tempPlatforms wd @ [\<lparr>tp_tx = a, tp_ty = b, expiresAt = now + 7000\<rparr>]\<rparr>)"
proof -
  obtain ua ub where u: "worldToTile (vec_x (pos p)) (vec_y (pos p) + ph p / 2 + 4) (tileSize (level wd)) = (ua, ub)"
    by (cases "worldToTile (vec_x (pos p)) (vec_y (pos p) + ph p / 2 + 4) (tileSize (level wd))")
  obtain aa ab where h: "worldToTile (vec_x (pos p) + real_of_int (facing p) * (pw p / 2 + 8))
                    (vec_y (pos p)) (tileSize (level wd)) = (aa, ab)"
    by (cases "worldToTile (vec_x (pos p) + real_of_int (facing p) * (pw p / 2 + 8))
                    (vec_y (pos p)) (tileSize (level wd))")
  show ?thesis
    by (simp add: earthPlace_def Let_def u h)
qed

lemma registryOk_placed:
  assumes ok: "registryOk wd" and cp: "canPlace (level wd) a b"
  shows "registryOk (wd\<lparr>level := setTile (level wd) a b CHR ''X'',
                 tempPlatforms := tempPlatforms wd @ [\<lparr>tp_tx = a, tp_ty = b, expiresAt = e\<rparr>]\<rparr>)"
proof -
  from canPlace_cell [OF cp] obtain c0 where c0: "tileAt (level wd) a b = Some c0" "c0 \<noteq> CHR ''#''" "c0 \<noteq> CHR ''X''"
    by blast
  have lok: "levelOk (level wd)" using ok by (simp add: registryOk_def)
  have rd: "tileAt (setTile (level wd) a b CHR ''X'') tx ty = (if tx = a \<and> ty = b then Some CHR ''X'' else tileAt (level wd) tx ty)"
    for tx ty
    by (rule tileAt_setTile [OF lok c0(1) c0(2)])
  have notin: "(a, b) \<notin> set (regCells (tempPlatforms wd))"
    using ok c0 by (auto simp: registryOk_def regCells_def)
  show ?thesis
    using ok notin by (auto simp: registryOk_def rd regCells_def)
qed

lemma registryOk_earthEvict:
  assumes ok: "registryOk wd"
  shows "registryOk (earthEvict wd)"
proof (cases "length (tempPlatforms wd) > 12")
  case False
  then show ?thesis using ok by (simp add: earthEvict_def)
next
  case True
  then obtain oldest rest where r: "tempPlatforms wd = oldest # rest"
    by (cases "tempPlatforms wd") auto
  have lok: "levelOk (level wd)" using ok by (simp add: registryOk_def)
  have x: "tileAt (level wd) (tp_tx oldest) (tp_ty oldest) = Some CHR ''X''"
    using ok r by (simp add: registryOk_def)
  have rd: "tileAt (setTile (level wd) (tp_tx oldest) (tp_ty oldest) CHR ''.'') tx ty
            = (if tx = tp_tx oldest \<and> ty = tp_ty oldest then Some CHR ''.'' else tileAt (level wd) tx ty)" for tx ty
    by (rule tileAt_setTile [OF lok x]) simp
  have e: "earthEvict wd = wd\<lparr>tempPlatforms := rest,
                level := setTile (level wd) (tp_tx oldest) (tp_ty oldest) CHR ''.''\<rparr>"
    using True r by (simp add: earthEvict_def)
  have ne: "\<not> (tp_tx tp = tp_tx oldest \<and> tp_ty tp = tp_ty oldest)" if "tp \<in> set rest" for tp
  proof
    assume "tp_tx tp = tp_tx oldest \<and> tp_ty tp = tp_ty oldest"
    then have "(tp_tx oldest, tp_ty oldest) \<in> (\<lambda>tp. (tp_tx tp, tp_ty tp)) ` set rest"
      using that by (metis (mono_tags, lifting) image_eqI)
    then show False using ok r by (simp add: registryOk_def regCells_def)
  qed
  have "tileAt (setTile (level wd) (tp_tx oldest) (tp_ty oldest) CHR ''.'') (tp_tx tp) (tp_ty tp) = Some CHR ''X''"
    if "tp \<in> set rest" for tp
    using ne [OF that] ok r that by (simp add: rd registryOk_def)
  then show ?thesis
    unfolding e using ok r by (simp add: registryOk_def regCells_def)
qed

lemma registryOk_doEarthAction:
  assumes ok: "registryOk wd"
  shows "registryOk (snd (doEarthAction now p wd))"
proof -
  from earthPlace_cases [of now p wd] show ?thesis
  proof
    assume "fst (earthPlace now p wd) = None \<and> snd (earthPlace now p wd) = wd"
    then show ?thesis using ok by (simp add: doEarthAction_snd)
  next
    assume "\<exists>a b. fst (earthPlace now p wd) = Some (a, b) \<and> canPlace (level wd) a b
        \<and> snd (earthPlace now p wd)
            = wd\<lparr>level := setTile (level wd) a b CHR ''X'',
                 tempPlatforms := tempPlatforms wd @ [\<lparr>tp_tx = a, tp_ty = b, expiresAt = now + 7000\<rparr>]\<rparr>"
    then obtain a b where ab: "fst (earthPlace now p wd) = Some (a, b)" "canPlace (level wd) a b"
      "snd (earthPlace now p wd)
            = wd\<lparr>level := setTile (level wd) a b CHR ''X'',
                 tempPlatforms := tempPlatforms wd @ [\<lparr>tp_tx = a, tp_ty = b, expiresAt = now + 7000\<rparr>]\<rparr>"
      by blast
    have "registryOk (snd (earthPlace now p wd))"
      unfolding ab(3) by (rule registryOk_placed [OF ok ab(2)])
    then show ?thesis
      using ab(1) by (simp add: doEarthAction_snd registryOk_earthEvict)
  qed
qed

lemma registryOk_abilityStep:
  assumes "registryOk wd"
  shows "registryOk (snd (abilityStep jp clk p wd))"
  using assms registryOk_doFireAction(1) [OF assms] registryOk_water [OF assms]
    registryOk_doEarthAction [OF assms]
  by (simp add: abilityStep_def Let_def split_beta)

lemma tempPlatforms_hazardStep [simp]: "tempPlatforms (snd (hazardStep cc bc p wd)) = tempPlatforms wd"
  by (simp add: hazardStep_def)

lemma registryOk_updatePlayer:
  assumes "registryOk wd"
  shows "registryOk (snd (updatePlayer ex pk clk dt p wd))"
proof -
  have "registryOk (snd (hazardStep cc bc q (snd (movePhase pk clk dt p wd))))" for cc bc q
    using assms by (simp add: registryOk_def)
  then show ?thesis
    by (simp add: updatePlayer_def Let_def registryOk_abilityStep)
qed

lemma registryOk_updatePlayers:
  "registryOk wd \<Longrightarrow> registryOk (snd (updatePlayers ex pk clks dt i ps wd))"
  by (induction ps arbitrary: i wd) (simp_all add: updatePlayers_Cons registryOk_updatePlayer del: updatePlayers.simps(2))


lemma expirePlatforms_fst:
  "fst (expirePlatforms now tps lv) = filter (\<lambda>tp. now < expiresAt tp) tps"
  by (induction tps arbitrary: lv) (simp_all add: split_beta not_le)

lemma expirePlatforms_other:
  "levelOk lv \<Longrightarrow> (tx, ty) \<notin> set (regCells (filter (\<lambda>tp. now \<ge> expiresAt tp) tps)) \<Longrightarrow>
   tileAt (snd (expirePlatforms now tps lv)) tx ty = tileAt lv tx ty"
proof (induction tps arbitrary: lv)
  case Nil
  then show ?case by simp
next
  case (Cons tp tps)
  show ?case
  proof (cases "now \<ge> expiresAt tp")
    case False
    then show ?thesis
      using Cons.IH [OF Cons.prems(1)] Cons.prems(2)
        expirePlatforms_keep [where now = now and tp = tp and tps = tps and lv = lv]
      by simp
  next
    case True
    from True Cons.prems(2) have ne: "\<not> (tx = tp_tx tp \<and> ty = tp_ty tp)"
      and rest: "(tx, ty) \<notin> set (regCells (filter (\<lambda>tp. now \<ge> expiresAt tp) tps))"
      by (auto simp: regCells_def)
    show ?thesis
    proof (cases "tileAt lv (tp_tx tp) (tp_ty tp) = Some CHR ''X''")
      case x: True
      let ?lv = "setTile lv (tp_tx tp) (tp_ty tp) CHR ''.''"
      have rd: "tileAt ?lv tx ty = tileAt lv tx ty"
        using tileAt_setTile [OF Cons.prems(1) x, of "CHR ''.''" tx ty] ne by simp
      have "levelOk ?lv" using Cons.prems(1) by simp
      from Cons.IH [OF this rest] show ?thesis
        using True x rd by simp
    next
      case False
      from Cons.IH [OF Cons.prems(1) rest] show ?thesis
        using True False by simp
    qed
  qed
qed

lemma distinct_map_split:
  assumes "distinct (map f xs)" "x \<in> set xs" "y \<in> set xs" "P x" "\<not> P y"
  shows "f x \<noteq> f y"
proof
  assume "f x = f y"
  moreover have "inj_on f (set xs)" using assms(1) by (simp add: distinct_map)
  ultimately have "x = y" using assms(2,3) by (auto dest: inj_onD)
  then show False using assms(4,5) by simp
qed

lemma registryOk_sweep:
  assumes ok: "registryOk wd"
  shows "registryOk (wd\<lparr>tempPlatforms := fst (expirePlatforms now (tempPlatforms wd) (level wd)),
                     level := snd (expirePlatforms now (tempPlatforms wd) (level wd))\<rparr>)"
proof -
  let ?tps = "tempPlatforms wd"
  let ?lv = "snd (expirePlatforms now ?tps (level wd))"
  have lok: "levelOk (level wd)" using ok by (simp add: registryOk_def)
  have lok': "levelOk ?lv"
    using lok sameShape_expirePlatforms [OF sameShape_refl, of "level wd" now ?tps]
    by (simp add: sameShape_levelOk)
  have d: "distinct (map (\<lambda>tp. (tp_tx tp, tp_ty tp)) ?tps)"
    using ok by (simp add: registryOk_def regCells_def)
  have keep: "tileAt ?lv (tp_tx tp) (tp_ty tp) = Some CHR ''X''"
    if "tp \<in> set ?tps" "now < expiresAt tp" for tp
  proof -
    have "(tp_tx tp, tp_ty tp) \<notin> set (regCells (filter (\<lambda>tp. now \<ge> expiresAt tp) ?tps))"
    proof
      assume "(tp_tx tp, tp_ty tp) \<in> set (regCells (filter (\<lambda>tp. now \<ge> expiresAt tp) ?tps))"
      then obtain tq where tq: "tq \<in> set ?tps" "now \<ge> expiresAt tq"
        "(tp_tx tq, tp_ty tq) = (tp_tx tp, tp_ty tp)"
        by (auto simp: regCells_def)
      from distinct_map_split [OF d tq(1) that(1), of "\<lambda>tp. now \<ge> expiresAt tp"] tq(2,3) that(2)
      show False by simp
    qed
    from expirePlatforms_other [OF lok this] ok that(1)
    show ?thesis by (simp add: registryOk_def)
  qed
  have d': "distinct (regCells (filter (\<lambda>tp. now < expiresAt tp) ?tps))"
    using d by (simp add: regCells_def distinct_map_filter)
  show ?thesis
    using lok' keep d' by (simp add: registryOk_def expirePlatforms_fst)
qed

lemma tileAt_doorOpen [simp]: "tileAt (lv\<lparr>doorOpen := b\<rparr>) tx ty = tileAt lv tx ty"
  by (simp add: tileAt_def)

lemma levelOk_doorOpen [simp]: "levelOk (lv\<lparr>doorOpen := b\<rparr>) = levelOk lv"
  by (simp add: levelOk_def)

lemma registryOk_sweepAndDoor:
  assumes "registryOk g"
  shows "registryOk (sweepAndDoor now g)"
  using registryOk_sweep [OF assms, of now]
  by (simp add: sweepAndDoor_def Let_def registryOk_def updateDoorOpen_def)

lemma registryOk_loop:
  assumes "registryOk g"
  shows "registryOk (loop ex pk clks now t g)"
proof -
  have a: "registryOk (g\<lparr>lastTime := t\<rparr>)" using assms by (simp add: registryOk_def)
  have "registryOk (snd (updatePlayers ex pk clks d 0 ps (sweepAndDoor now (g\<lparr>lastTime := t\<rparr>))))" for d ps
    by (rule registryOk_updatePlayers [OF registryOk_sweepAndDoor [OF a]])
  then have "registryOk (winCheck ((snd (updatePlayers ex pk clks d 0 ps (sweepAndDoor now (g\<lparr>lastTime := t\<rparr>))))\<lparr>players := qs\<rparr>))"
    for d ps qs
    by (simp add: registryOk_def winCheck_def Let_def)
  then show ?thesis
    using a by (simp add: loop_def Let_def)
qed

lemma levelOk_createLevel: "levelOk createLevel"
  by (simp add: levelOk_def createLevel_def LEVEL_MAP_def TILE_def)

lemma reachable_registryOk: "reachableGame ex g \<Longrightarrow> registryOk g"
proof (induction rule: reachableGame.induct)
  case (start g)
  then show ?case by (simp add: registryOk_def regCells_def)
next
  case (frame g pressedKeys clks now t)
  then show ?case by (simp add: registryOk_loop)
next
  case (reset g spawns bindings now)
  then show ?case by (simp add: resetGame_def registryOk_def regCells_def levelOk_createLevel)
next
  case (pause g)
  then show ?case by (simp add: togglePause_def registryOk_def)
next
  case (modal g "next" which)
  then show ?case
    by (simp add: onOpenChange_def handleModalOpenChange_def Let_def registryOk_def)
qed


lemma earth_success:
  assumes ok: "registryOk wd" and pl: "fst (doEarthAction now p wd)"
  shows "\<exists>a b. canPlace (level wd) a b
      \<and> tempPlatforms (snd (doEarthAction now p wd))
          = (if 12 \<le> length (tempPlatforms wd) then tl (tempPlatforms wd) else tempPlatforms wd)
            @ [\<lparr>tp_tx = a, tp_ty = b, expiresAt = now + 7000\<rparr>]
      \<and> (12 \<le> length (tempPlatforms wd) \<longrightarrow>
           tileAt (level (snd (doEarthAction now p wd)))
             (tp_tx (hd (tempPlatforms wd))) (tp_ty (hd (tempPlatforms wd))) = Some CHR ''.'')"
proof -
  from pl have "fst (earthPlace now p wd) \<noteq> None" by (simp add: doEarthAction_snd)
  with earthPlace_cases [of now p wd]
  obtain a b where ab: "fst (earthPlace now p wd) = Some (a, b)" "canPlace (level wd) a b"
      "snd (earthPlace now p wd)
            = wd\<lparr>level := setTile (level wd) a b CHR ''X'',
                 tempPlatforms := tempPlatforms wd @ [\<lparr>tp_tx = a, tp_ty = b, expiresAt = now + 7000\<rparr>]\<rparr>"
    by auto
  let ?new = "\<lparr>tp_tx = a, tp_ty = b, expiresAt = now + 7000\<rparr>"
  let ?w1 = "wd\<lparr>level := setTile (level wd) a b CHR ''X'', tempPlatforms := tempPlatforms wd @ [?new]\<rparr>"
  have ok1: "registryOk ?w1" by (rule registryOk_placed [OF ok ab(2)])
  have r: "snd (doEarthAction now p wd) = earthEvict ?w1"
    using ab by (simp add: doEarthAction_snd)
  show ?thesis
  proof (cases "12 \<le> length (tempPlatforms wd)")
    case False
    then have "earthEvict ?w1 = ?w1" by (simp add: earthEvict_def)
    then show ?thesis using False ab(2) r by auto
  next
    case True
    then obtain oldest rest where o: "tempPlatforms wd = oldest # rest"
      by (cases "tempPlatforms wd") auto
    have e: "earthEvict ?w1 = ?w1\<lparr>tempPlatforms := rest @ [?new],
                level := setTile (level ?w1) (tp_tx oldest) (tp_ty oldest) CHR ''.''\<rparr>"
      using True o by (simp add: earthEvict_def)
    have x: "tileAt (level ?w1) (tp_tx oldest) (tp_ty oldest) = Some CHR ''X''"
      using ok1 o by (simp add: registryOk_def)
    have lok: "levelOk (level ?w1)" using ok1 by (simp add: registryOk_def)
    have t: "tileAt (setTile (level ?w1) (tp_tx oldest) (tp_ty oldest) CHR ''.'') (tp_tx oldest) (tp_ty oldest)
          = Some CHR ''.''"
      using tileAt_setTile [OF lok x, of "CHR ''.''" "tp_tx oldest" "tp_ty oldest"] by simp
    have tp: "tempPlatforms (earthEvict ?w1) = tl (tempPlatforms wd) @ [?new]"
      unfolding e using o by simp
    have lv: "tileAt (level (earthEvict ?w1)) (tp_tx (hd (tempPlatforms wd))) (tp_ty (hd (tempPlatforms wd)))
              = Some CHR ''.''"
      unfolding e using t o by simp
    show ?thesis
      unfolding r using True ab(2) tp lv by (intro exI [of _ a] exI [of _ b]) simp
  qed
qed

lemma placeAll_step:
  "placeAll ((now, p) # ins) wd
   = (if fst (doEarthAction now p wd) then placeAll ins (snd (doEarthAction now p wd)) else None)"
  by (simp add: split_beta)

lemma placeAll_append:
  "placeAll (xs @ ys) wd = (case placeAll xs wd of None \<Rightarrow> None | Some wd' \<Rightarrow> placeAll ys wd')"
proof (induction xs arbitrary: wd)
  case Nil
  then show ?case by simp
next
  case (Cons x xs)
  obtain now p where x: "x = (now, p)" by (cases x)
  show ?case
    unfolding x append_Cons placeAll_step using Cons.IH by simp
qed

lemma placeAll_grow:
  "registryOk wd \<Longrightarrow> placeAll ins wd = Some wd' \<Longrightarrow> length (tempPlatforms wd) + length ins \<le> 12 \<Longrightarrow>
   registryOk wd' \<and> (\<exists>added. length added = length ins \<and> tempPlatforms wd' = tempPlatforms wd @ added)"
proof (induction ins arbitrary: wd)
  case Nil
  then show ?case by simp
next
  case (Cons x ins)
  obtain now p where x: "x = (now, p)" by (cases x)
  from Cons.prems(2) have pl: "fst (doEarthAction now p wd)"
    and rest: "placeAll ins (snd (doEarthAction now p wd)) = Some wd'"
    unfolding x placeAll_step by (auto split: if_splits)
  let ?w1 = "snd (doEarthAction now p wd)"
  have ok1: "registryOk ?w1" by (rule registryOk_doEarthAction [OF Cons.prems(1)])
  from earth_success [OF Cons.prems(1) pl] Cons.prems(3)
  obtain c where c: "tempPlatforms ?w1 = tempPlatforms wd @ [c]" by auto
  have "length (tempPlatforms ?w1) + length ins \<le> 12" using c Cons.prems(3) by simp
  from Cons.IH [OF ok1 rest this]
  obtain added where "registryOk wd'" "length added = length ins" "tempPlatforms wd' = tempPlatforms ?w1 @ added"
    by blast
  then show ?case using c by (auto intro: exI [of _ "c # added"])
qed

lemma thirteen_placements:
  assumes ok: "registryOk wd" and em: "tempPlatforms wd = []" and len: "length ins = 13"
    and run: "placeAll ins wd = Some wd'"
  shows "length (tempPlatforms wd') = 12
       \<and> tileAt (level wd')
            (tp_tx (hd (tempPlatforms (snd (doEarthAction (fst (hd ins)) (snd (hd ins)) wd)))))
            (tp_ty (hd (tempPlatforms (snd (doEarthAction (fst (hd ins)) (snd (hd ins)) wd))))) = Some CHR ''.''"
proof -
  from len obtain x mid y where ins: "ins = x # mid @ [y]" "length mid = 11"
  proof -
    from len obtain x rest where r: "ins = x # rest" "length rest = 12" by (cases ins) auto
    then have "rest \<noteq> []" by auto
    then have "rest = butlast rest @ [last rest]" by simp
    moreover have "length (butlast rest) = 11" using r(2) by simp
    ultimately show ?thesis using that r(1) by metis
  qed
  obtain now p where x: "x = (now, p)" by (cases x)
  obtain now' p' where y: "y = (now', p')" by (cases y)
  let ?w1 = "snd (doEarthAction now p wd)"
  from run have pl: "fst (doEarthAction now p wd)" and rest: "placeAll (mid @ [y]) ?w1 = Some wd'"
    unfolding ins x placeAll_step by (auto split: if_splits)
  from earth_success [OF ok pl] em
  obtain e1 where e1: "tempPlatforms ?w1 = [e1]" by auto
  have ok1: "registryOk ?w1" by (rule registryOk_doEarthAction [OF ok])
  from rest obtain w12 where m: "placeAll mid ?w1 = Some w12" and l: "placeAll [y] w12 = Some wd'"
    unfolding placeAll_append by (auto split: option.splits)
  from placeAll_grow [OF ok1 m] e1 ins(2)
  obtain added where a: "registryOk w12" "length added = 11" "tempPlatforms w12 = e1 # added"
    by auto
  from l have pl': "fst (doEarthAction now' p' w12)" and fin: "wd' = snd (doEarthAction now' p' w12)"
    unfolding y placeAll_step by (auto split: if_splits)
  from earth_success [OF a(1) pl'] a(2,3)
  obtain c where "tempPlatforms wd' = added @ [c]"
    "tileAt (level wd') (tp_tx e1) (tp_ty e1) = Some CHR ''.''"
    unfolding fin by auto
  then show ?thesis
    using a(2) e1 by (simp add: ins x)
qed

lemma thirteen_run: "placeAll thirteen earthWorld \<noteq> None"
  by (simp add: thirteen_def digger_def earthWorld_def earthLevel_def doEarthAction_def earthPlace_def
      earthEvict_def canPlace_def eval_defs cong: eval_congs list.case_cong_weak)



section \<open>Tile classification\<close>

text \<open>
  C2. For each of the four coloured-hole symbols and every actor identity in 1..4 exactly
  one of liquid, hazard and neutral (neither) holds: the symbol's safe owner is liquid
  and not hazard, every other identity is hazard and not liquid; each symbol has exactly
  one owner among the four identities.
\<close>

theorem colored_hole_classification:
  assumes "ch \<in> {Some CHR ''f'', Some CHR ''a'', Some CHR ''e'', Some CHR ''n''}"
    and "playerId \<in> {1, 2, 3, 4}"
  shows "(isLiquidForPlayer ch playerId \<longleftrightarrow> \<not> isHazardFor ch playerId)
       \<and> (safePlayerForColoredHole ch = Some playerId \<longrightarrow>
            isLiquidForPlayer ch playerId \<and> \<not> isHazardFor ch playerId)
       \<and> (safePlayerForColoredHole ch \<noteq> Some playerId \<longrightarrow>
            isHazardFor ch playerId \<and> \<not> isLiquidForPlayer ch playerId)
       \<and> (\<exists>owner \<in> {1, 2, 3, 4}. safePlayerForColoredHole ch = Some owner)
       \<and> card {q \<in> {1, 2, 3, 4}. isHazardFor ch q} = 3
       \<and> card {q \<in> {1, 2, 3, 4}. isLiquidForPlayer ch q} = 1"
proof -
  from assms(1) have hole: "isColoredHole ch"
    by (auto simp: isColoredHole_def)
  from assms(1) obtain k where k: "safePlayerForColoredHole ch = Some k" "k \<in> {1, 2, 3, 4}"
    by (auto simp: safePlayerForColoredHole_def)
  have liq: "isLiquidForPlayer ch q \<longleftrightarrow> q = k" for q
    using assms(1) k(1) hole by (auto simp: isLiquidForPlayer_def)
  have haz: "isHazardFor ch q \<longleftrightarrow> q \<noteq> k" for q
    using assms(1) k(1) hole by (auto simp: isHazardFor_def)
  have "{q \<in> {1, 2, 3, 4}. q = k} = {k}"
    using k(2) by auto
  then have c1: "card {q \<in> {1, 2, 3, 4}. isLiquidForPlayer ch q} = 1"
    by (simp add: liq)
  have "{q \<in> {1, 2, 3, 4}. q \<noteq> k} = {1, 2, 3, 4} - {k}"
    by auto
  then have c3: "card {q \<in> {1, 2, 3, 4}. isHazardFor ch q} = 3"
    using k(2) by (auto simp: haz)
  show ?thesis
    using k c1 c3 by (simp add: liq haz)
qed

theorem colored_hole_classification_witness:
  "isLiquidForPlayer (Some CHR ''e'') 3 \<and> \<not> isHazardFor (Some CHR ''e'') 3
   \<and> isHazardFor (Some CHR ''e'') 1 \<and> \<not> isLiquidForPlayer (Some CHR ''e'') 1
   \<and> card {q \<in> {1, 2, 3, 4}. isHazardFor (Some CHR ''e'') q} = 3"
  using colored_hole_classification [of "Some CHR ''e''" 3]
    colored_hole_classification [of "Some CHR ''e''" 1]
  by (simp add: safePlayerForColoredHole_def)

section \<open>Boundary policy of the grid\<close>

text \<open>
  C7. The claim: a read outside the bounds gives the wall symbol, and therefore no
  collision query ever indexes outside the grid. On the level that \<open>createLevel\<close> builds
  the second part fails. The guard of \<open>tileAt\<close> compares the column with \<open>lvl_w\<close>, the
  length of row 0, which is 40; rows 12, 15 and 21 of \<open>LEVEL_MAP\<close> hold 39 characters.
  The solidity query at the point \<open>(1260, 400)\<close> falls on tile \<open>(39, 12)\<close>, inside the
  bounds, and reads row 12 at index 39, one past its last character: the read gives no
  symbol (\<^verbatim>\<open>undefined\<close>) and the query answers not solid, in the border column that
  is wall in the rows above and below.
\<close>

theorem short_row_read_past_end:
  "lvl_w createLevel = 40 \<and> lvl_h createLevel = 24
   \<and> worldToTile 1260 400 (tileSize createLevel) = (39, 12)
   \<and> length (rowAt (tiles createLevel) 12) = 39
   \<and> tileAt createLevel 39 12 = None
   \<and> \<not> solidAt createLevel 1260 400
   \<and> tileAt createLevel 39 11 = Some CHR ''#'' \<and> tileAt createLevel 39 13 = Some CHR ''#''
   \<and> tileAt createLevel 39 15 = None \<and> tileAt createLevel 39 21 = None"
  by (simp add: tileAt_def rowAt_def charAtIdx_def createLevel_def LEVEL_MAP_def solidAt_def
      worldToTile_def isSolid_def TILE_def)

text \<open>
  The guard itself does what it is written for. A tile read at a coordinate outside the
  bounds gives the wall symbol whatever the rows hold (the rows are not consulted), the
  symbol is solid for either state of the door, and so is every solidity query whose
  sample point falls on such a tile.
\<close>

lemma out_of_bounds_is_wall:
  assumes "tx < 0 \<or> tx \<ge> lvl_w lv \<or> ty < 0 \<or> ty \<ge> lvl_h lv"
  shows "tileAt (lv\<lparr>tiles := ts\<rparr>) tx ty = Some CHR ''#''
       \<and> isSolid (tileAt (lv\<lparr>tiles := ts\<rparr>) tx ty) d
       \<and> (worldToTile x y (tileSize lv) = (tx, ty) \<longrightarrow> solidAt (lv\<lparr>tiles := ts, doorOpen := d\<rparr>) x y)"
proof -
  have rd: "tileAt (lv\<lparr>tiles := ts\<rparr>) tx ty = Some CHR ''#''"
    using assms unfolding tileAt_def by auto
  have rd': "tileAt (lv\<lparr>tiles := ts, doorOpen := d\<rparr>) tx ty = Some CHR ''#''"
    using assms unfolding tileAt_def by auto
  show ?thesis
    using rd rd' by (simp add: isSolid_def solidAt_def)
qed

lemma out_of_bounds_is_wall_sample:
  "tileAt createLevel 40 3 = Some CHR ''#'' \<and> solidAt createLevel 1290 100
   \<and> tileAt createLevel (- 1) 3 = Some CHR ''#'' \<and> solidAt createLevel 100 (- 5)"
proof -
  have w: "lvl_w createLevel = 40" and h: "lvl_h createLevel = 24"
    by (simp_all add: createLevel_def LEVEL_MAP_def)
  have same: "createLevel\<lparr>tiles := tiles createLevel, doorOpen := doorOpen createLevel\<rparr> = createLevel"
    "createLevel\<lparr>tiles := tiles createLevel\<rparr> = createLevel"
    by simp_all
  have ts: "tileSize createLevel = 32"
    by (simp add: createLevel_def TILE_def)
  have a: "(40::int) < 0 \<or> 40 \<ge> lvl_w createLevel \<or> (3::int) < 0 \<or> 3 \<ge> lvl_h createLevel"
    by (simp add: w)
  have b: "(- 1::int) < 0 \<or> - 1 \<ge> lvl_w createLevel \<or> (3::int) < 0 \<or> 3 \<ge> lvl_h createLevel"
    by simp
  have c: "(3::int) < 0 \<or> 3 \<ge> lvl_w createLevel \<or> (- 1::int) < 0 \<or> - 1 \<ge> lvl_h createLevel"
    by simp
  have wa: "worldToTile 1290 100 (tileSize createLevel) = (40, 3)"
    and wc: "worldToTile 100 (- 5) (tileSize createLevel) = (3, - 1)"
    by (simp_all add: worldToTile_def ts)
  show ?thesis
    using out_of_bounds_is_wall [OF a, of "tiles createLevel" "doorOpen createLevel" 1290 100]
      out_of_bounds_is_wall [OF b, of "tiles createLevel" "doorOpen createLevel" 0 0]
      out_of_bounds_is_wall [OF c, of "tiles createLevel" "doorOpen createLevel" 100 "- 5"]
      wa wc
    by (simp add: same)
qed

section \<open>Pause and the dialogs\<close>

text \<open>
  C8. The claim is that closing the last dialog restores the pause state that held before
  the first one opened. With the game paused and no dialog open, opening a dialog and
  closing it again leaves the game running: the handler stores the \<open>paused\<close> of the
  first render, not the current one.
\<close>

theorem modal_close_drops_prior_pause:
  "paused (onOpenChange False k (onOpenChange True k (g\<lparr>paused := True, modalCount := 0\<rparr>))) = False
   \<and> modalCount (onOpenChange False k (onOpenChange True k (g\<lparr>paused := True, modalCount := 0\<rparr>))) = 0"
  by (simp add: onOpenChange_def handleModalOpenChange_def Let_def)

section \<open>Win condition\<close>

text \<open>
  C1. At the end of a simulation step that runs (not paused, not yet won) the game is
  won if and only if every actor overlaps one of the exit rectangles of its own
  identity and every plate record is pressed; so one unpressed plate, or one actor off
  its gate, keeps the step from winning.
\<close>

theorem win_iff_gates_and_plates:
  assumes "\<not> paused g" "\<not> won g" "levelOk (level g)"
  shows "won (loop ex pk clks now t g) \<longleftrightarrow>
           (\<forall>p \<in> set (players (loop ex pk clks now t g)).
               \<exists>e \<in> set (ex (pid p)). overlapsExit (level (loop ex pk clks now t g)) p e)
           \<and> (\<forall>kv \<in> set (plates (loop ex pk clks now t g)). pressed (snd kv))"
proof -
  let ?g3 = "sweepAndDoor now (g\<lparr>lastTime := t\<rparr>)"
  obtain ps' wd' where u: "updatePlayers ex pk clks (frameDt t g) 0 (players ?g3) ?g3 = (ps', wd')"
    by (cases "updatePlayers ex pk clks (frameDt t g) 0 (players ?g3) ?g3")
  let ?g4 = "wd'\<lparr>players := ps'\<rparr>"
  have l: "loop ex pk clks now t g = winCheck ?g4"
    using assms u by (simp add: loop_def Let_def)
  have w3: "\<not> won ?g3" using assms by (simp add: sweepAndDoor_def Let_def)
  have "World.more wd' = World.more ?g3"
    using more_updatePlayers [of ex pk clks "frameDt t g" 0 "players ?g3" ?g3] u by simp
  then have "won wd' = won ?g3" using game_more by blast
  then have w4: "\<not> won ?g4" using w3 by simp
  have ex: "list_all exitReached ps' \<longleftrightarrow>
            (\<forall>p \<in> set ps'. \<exists>e \<in> set (ex (pid p)). overlapsExit (level wd') p e)"
    using updatePlayers_exit [OF u] by (simp add: list_all_iff)
  show ?thesis
    unfolding l using w4 ex
    by (simp add: winCheck_def Let_def allPlatesPressed_iff)
qed

theorem win_iff_gates_and_plates_witness:
  "won (loop (\<lambda>i. [\<lparr>vec_x = 96, vec_y = 32\<rparr>]) {} (\<lambda>i. zeroClock) 1020 1025 gateScene)
   \<and> \<not> won (loop (\<lambda>i. [\<lparr>vec_x = 96, vec_y = 32\<rparr>]) {} (\<lambda>i. zeroClock) 1020 1025
              (gateScene\<lparr>plates := [((2, 1), \<lparr>ps_tx = 2, ps_ty = 1, pressed = False, pressTime = 0\<rparr>)]\<rparr>))"
proof -
  let ?ex = "\<lambda>i::int. [\<lparr>vec_x = 96, vec_y = 32\<rparr>]"
  let ?un = "gateScene\<lparr>plates := [((2, 1), \<lparr>ps_tx = 2, ps_ty = 1, pressed = False, pressTime = 0\<rparr>)]\<rparr>"
  have h: "\<not> paused gateScene" "\<not> won gateScene" "levelOk (level gateScene)"
    by (simp_all add: gateScene_def plateLevel_def levelOk_def)
  have h': "\<not> paused ?un" "\<not> won ?un" "levelOk (level ?un)"
    by (simp_all add: gateScene_def plateLevel_def levelOk_def)
  have gates: "\<forall>p \<in> set (players (loop ?ex {} (\<lambda>i. zeroClock) 1020 1025 gateScene)).
         \<exists>e \<in> set (?ex (pid p)).
           overlapsExit (level (loop ?ex {} (\<lambda>i. zeroClock) 1020 1025 gateScene)) p e"
    by (simp add: eval_defs gateScene_def plateLevel_def
        cong: if_weak_cong let_weak_cong prod.case_cong_weak option.case_cong_weak)
  have pressed: "\<forall>kv \<in> set (plates (loop ?ex {} (\<lambda>i. zeroClock) 1020 1025 gateScene)). pressed (snd kv)"
    by (simp add: eval_defs gateScene_def plateLevel_def
        cong: if_weak_cong let_weak_cong prod.case_cong_weak option.case_cong_weak)
  have unpressed: "\<not> (\<forall>kv \<in> set (plates (loop ?ex {} (\<lambda>i. zeroClock) 1020 1025 ?un)). pressed (snd kv))"
    by (simp add: eval_defs gateScene_def plateLevel_def
        cong: if_weak_cong let_weak_cong prod.case_cong_weak option.case_cong_weak)
  show ?thesis
    using win_iff_gates_and_plates [OF h, of ?ex "{}" "\<lambda>i. zeroClock" 1020 1025]
      win_iff_gates_and_plates [OF h', of ?ex "{}" "\<lambda>i. zeroClock" 1020 1025]
      gates pressed unpressed
    by blast
qed

section \<open>Door state\<close>

text \<open>
  C3. In a step that runs, the door flag is recomputed before the actors are updated
  (the state after \<open>sweepAndDoor\<close>) as: at least two actors have their feet sample
  point, one pixel below the feet, on a plate tile. The actor updates leave the flag as
  computed, so it is also the flag at the end of the step. The plate records play no
  part: the flag is the same for every plate map \<open>pl\<close>.
\<close>

theorem door_open_recomputed:
  assumes "\<not> paused g" "\<not> won g" "levelOk (level g)"
  shows "(doorOpen (level (sweepAndDoor now (g\<lparr>plates := pl\<rparr>))) \<longleftrightarrow>
            2 \<le> length (filter (\<lambda>p. isPlate (tileCharAt (level g) (vec_x (pos p)) (vec_y (pos p) + ph p / 2 + 1)))
                          (players g)))
       \<and> (doorOpen (level (loop ex pk clks now t (g\<lparr>plates := pl\<rparr>))) \<longleftrightarrow>
            2 \<le> length (filter (\<lambda>p. isPlate (tileCharAt (level g) (vec_x (pos p)) (vec_y (pos p) + ph p / 2 + 1)))
                          (players g)))"
proof -
  have "doorOpen (level (sweepAndDoor now (g\<lparr>plates := pl\<rparr>))) \<longleftrightarrow>
        2 \<le> length (filter (\<lambda>p. isPlate (tileCharAt (snd (expirePlatforms now (tempPlatforms g) (level g)))
                                (vec_x (pos p)) (vec_y (pos p) + ph p / 2 + 1))) (players g))"
    by (simp add: sweepAndDoor_def Let_def doorOpen_updateDoorOpen)
  then show ?thesis
    using door_loop [OF assms, of ex pk clks now t pl]
    by (simp add: isPlate_after_sweep [OF assms(3)])
qed

theorem door_open_recomputed_witness:
  "doorOpen (level (loop (\<lambda>i. []) {} (\<lambda>i. zeroClock) 1020 1025 plateScene))
   \<and> \<not> doorOpen (level (loop (\<lambda>i. []) {} (\<lambda>i. zeroClock) 1020 1025
         (plateScene\<lparr>players := take 1 (players plateScene),
                     plates := [((2, 1), \<lparr>ps_tx = 2, ps_ty = 1, pressed = True, pressTime = 7\<rparr>)]\<rparr>)))"
proof -
  have ok: "levelOk (level plateScene)"
    by (simp add: plateScene_def plateLevel_def levelOk_def)
  have on: "isPlate (tileCharAt plateLevel 80 (40 + 28 / 2 + 1))"
    by (simp add: tileCharAt_def worldToTile_def tileAt_def rowAt_def charAtIdx_def plateLevel_def isPlate_def)
  have a: "\<not> paused plateScene" "\<not> won plateScene" "level plateScene = plateLevel"
    by (simp_all add: plateScene_def)
  have ps: "players plateScene = createPlayers (\<lambda>i. \<lparr>vec_x = 80, vec_y = 40\<rparr>) defaultBindings"
    by (simp add: plateScene_def)
  show ?thesis
    using door_open_recomputed [OF a(1) a(2) ok, of 1020 "plates plateScene" "\<lambda>i. []" "{}" "\<lambda>i. zeroClock" 1025]
      door_open_recomputed [of "plateScene\<lparr>players := take 1 (players plateScene)\<rparr>" 1020
        "[((2, 1), \<lparr>ps_tx = 2, ps_ty = 1, pressed = True, pressTime = 7\<rparr>)]" "\<lambda>i. []" "{}" "\<lambda>i. zeroClock" 1025]
      ok a on
    by (simp add: ps createPlayers_def)
qed

section \<open>Hazard contact and respawn\<close>

text \<open>
  C4. The claim: after collision resolution the hazard test looks at the actor's centre
  tile and at the tile below its feet, and on contact the actor is respawned with its
  dash and jump state cleared. The source reads \<^verbatim>\<open>centerChar\<close> before
  \<open>moveAndCollide\<close> and uses that same read in the hazard block, while \<^verbatim>\<open>belowChar\<close>
  is read after the move. So at a side entry the test misses the contact: the Fire
  actor \<open>walker\<close> moves right into the poison pool, after the move its centre is on the
  poison tile, and the update ends with the actor where it moved to, not at its spawn
  point, and with the death counter unchanged. The second half evaluates an update that
  does respawn (\<open>windSoaked\<close>, whose centre is in the pool from the start): position and
  velocity are reset, the air-jump budget is at its maximum, the dash flag is off and
  the dash end time zero, the counter is one higher, and the jump-lock flag, set
  before the update, is still set.
\<close>

theorem hazard_side_entry_missed:
  "isHazardFor (tileCharAt poolLevel (vec_x (pos (fst (updatePlayer (\<lambda>i. []) {''d''} zeroClock (1 / 40) walker poolWorld))))
                                     (vec_y (pos (fst (updatePlayer (\<lambda>i. []) {''d''} zeroClock (1 / 40) walker poolWorld))))) 1
   \<and> pos (fst (updatePlayer (\<lambda>i. []) {''d''} zeroClock (1 / 40) walker poolWorld)) = \<lparr>vec_x = 100, vec_y = 49.125\<rparr>
   \<and> spawn (fst (updatePlayer (\<lambda>i. []) {''d''} zeroClock (1 / 40) walker poolWorld)) = \<lparr>vec_x = 48, vec_y = 80\<rparr>
   \<and> deaths (snd (updatePlayer (\<lambda>i. []) {''d''} zeroClock (1 / 40) walker poolWorld)) = deaths poolWorld
   \<and> pos (fst (updatePlayer (\<lambda>i. []) {} dashClock (1 / 40) windSoaked poolWorld)) = spawn windSoaked
   \<and> vel (fst (updatePlayer (\<lambda>i. []) {} dashClock (1 / 40) windSoaked poolWorld)) = \<lparr>vec_x = 0, vec_y = 0\<rparr>
   \<and> airJumpsLeft (fst (updatePlayer (\<lambda>i. []) {} dashClock (1 / 40) windSoaked poolWorld)) = maxAirJumps windSoaked
   \<and> \<not> isDashing (fst (updatePlayer (\<lambda>i. []) {} dashClock (1 / 40) windSoaked poolWorld))
   \<and> dashUntil (fst (updatePlayer (\<lambda>i. []) {} dashClock (1 / 40) windSoaked poolWorld)) = 0
   \<and> alive (fst (updatePlayer (\<lambda>i. []) {} dashClock (1 / 40) windSoaked poolWorld))
   \<and> deaths (snd (updatePlayer (\<lambda>i. []) {} dashClock (1 / 40) windSoaked poolWorld)) = deaths poolWorld + 1
   \<and> jumpLock windSoaked
   \<and> jumpLock (fst (updatePlayer (\<lambda>i. []) {} dashClock (1 / 40) windSoaked poolWorld))"
proof -
  have r: "pos (fst (updatePlayer (\<lambda>i. []) {''d''} zeroClock (1 / 40) walker poolWorld)) = \<lparr>vec_x = 100, vec_y = 49.125\<rparr>"
    by (simp add: eval_defs walker_def poolWorld_def poolLevel_def cong: eval_congs)
  have s: "spawn (fst (updatePlayer (\<lambda>i. []) {''d''} zeroClock (1 / 40) walker poolWorld)) = \<lparr>vec_x = 48, vec_y = 80\<rparr>"
    by (simp add: eval_defs walker_def poolWorld_def poolLevel_def cong: eval_congs)
  have d: "deaths (snd (updatePlayer (\<lambda>i. []) {''d''} zeroClock (1 / 40) walker poolWorld)) = deaths poolWorld"
    by (simp add: eval_defs walker_def poolWorld_def poolLevel_def cong: eval_congs)
  have h: "isHazardFor (tileCharAt poolLevel 100 49.125) 1"
    by (simp add: eval_defs poolLevel_def cong: eval_congs)
  have w1: "pos (fst (updatePlayer (\<lambda>i. []) {} dashClock (1 / 40) windSoaked poolWorld)) = spawn windSoaked"
    by (simp add: eval_defs dashClock_def windSoaked_def poolWorld_def poolLevel_def cong: eval_congs)
  have w2: "vel (fst (updatePlayer (\<lambda>i. []) {} dashClock (1 / 40) windSoaked poolWorld)) = \<lparr>vec_x = 0, vec_y = 0\<rparr>"
    by (simp add: eval_defs dashClock_def windSoaked_def poolWorld_def poolLevel_def cong: eval_congs)
  have w3: "airJumpsLeft (fst (updatePlayer (\<lambda>i. []) {} dashClock (1 / 40) windSoaked poolWorld)) = maxAirJumps windSoaked"
    by (simp add: eval_defs dashClock_def windSoaked_def poolWorld_def poolLevel_def cong: eval_congs)
  have w4: "\<not> isDashing (fst (updatePlayer (\<lambda>i. []) {} dashClock (1 / 40) windSoaked poolWorld))"
    by (simp add: eval_defs dashClock_def windSoaked_def poolWorld_def poolLevel_def cong: eval_congs)
  have w5: "dashUntil (fst (updatePlayer (\<lambda>i. []) {} dashClock (1 / 40) windSoaked poolWorld)) = 0"
    by (simp add: eval_defs dashClock_def windSoaked_def poolWorld_def poolLevel_def cong: eval_congs)
  have w6: "alive (fst (updatePlayer (\<lambda>i. []) {} dashClock (1 / 40) windSoaked poolWorld))"
    by (simp add: eval_defs dashClock_def windSoaked_def poolWorld_def poolLevel_def cong: eval_congs)
  have w7: "deaths (snd (updatePlayer (\<lambda>i. []) {} dashClock (1 / 40) windSoaked poolWorld)) = deaths poolWorld + 1"
    by (simp add: eval_defs dashClock_def windSoaked_def poolWorld_def poolLevel_def cong: eval_congs)
  have w8: "jumpLock windSoaked"
    by (simp add: windSoaked_def)
  have w9: "jumpLock (fst (updatePlayer (\<lambda>i. []) {} dashClock (1 / 40) windSoaked poolWorld))"
    by (simp add: eval_defs dashClock_def windSoaked_def poolWorld_def poolLevel_def cong: eval_congs)
  show ?thesis
    unfolding r using s d h w1 w2 w3 w4 w5 w6 w7 w8 w9 by simp
qed

text \<open>
  The hazard block on the condition that the source evaluates (\<open>hazardContact\<close>: the
  symbol read at the actor's centre at the start of the update, and the symbol two
  pixels below its feet after collision resolution). When the condition holds the update
  ends with the actor at its spawn point, velocity zero, the air-jump budget at its
  maximum, the dash flag off and the dash end time zero, the actor alive, and the death
  counter one higher. When it does not, the actor stays where it moved to and the
  counter is unchanged.
\<close>

lemma hazard_respawn:
  assumes "levelOk (level wd)"
  shows "(hazardContact pk clk dt p wd \<longrightarrow>
            pos (fst (updatePlayer ex pk clk dt p wd)) = spawn p
          \<and> vel (fst (updatePlayer ex pk clk dt p wd)) = \<lparr>vec_x = 0, vec_y = 0\<rparr>
          \<and> airJumpsLeft (fst (updatePlayer ex pk clk dt p wd)) = maxAirJumps p
          \<and> \<not> isDashing (fst (updatePlayer ex pk clk dt p wd))
          \<and> dashUntil (fst (updatePlayer ex pk clk dt p wd)) = 0
          \<and> alive (fst (updatePlayer ex pk clk dt p wd))
          \<and> deaths (snd (updatePlayer ex pk clk dt p wd)) = deaths wd + 1)
       \<and> (\<not> hazardContact pk clk dt p wd \<longrightarrow>
            pos (fst (updatePlayer ex pk clk dt p wd)) = pos (fst (movePhase pk clk dt p wd))
          \<and> deaths (snd (updatePlayer ex pk clk dt p wd)) = deaths wd)"
proof -
  let ?mv = "movePhase pk clk dt p wd"
  let ?hz = "hazardStep (tileCharAt (level wd) (vec_x (pos p)) (vec_y (pos p)))
                  (tileCharAt (level wd) (vec_x (pos (fst ?mv))) (vec_y (pos (fst ?mv)) + ph (fst ?mv) / 2 + 2))
                  (fst ?mv) (snd ?mv)"
  obtain a n e where f: "fst (updatePlayer ex pk clk dt p wd)
       = (fst ?hz)\<lparr>abilityCooldownUntil := a, nextStepFxTime := n, exitReached := e\<rparr>"
    using updatePlayer_after_hazard(1) [of ex pk clk dt p wd] by blast
  have d: "deaths (snd (updatePlayer ex pk clk dt p wd)) = deaths (snd ?hz)"
    by (rule updatePlayer_after_hazard(2))
  show ?thesis
    unfolding f d
    by (simp add: hazardStep_def hazardContact_def Let_def)
qed

lemma hazard_respawn_sample:
  "pos (fst (updatePlayer (\<lambda>i. []) {} dashClock (1 / 40) windSoaked poolWorld)) = \<lparr>vec_x = 48, vec_y = 80\<rparr>
   \<and> vel (fst (updatePlayer (\<lambda>i. []) {} dashClock (1 / 40) windSoaked poolWorld)) = \<lparr>vec_x = 0, vec_y = 0\<rparr>
   \<and> airJumpsLeft (fst (updatePlayer (\<lambda>i. []) {} dashClock (1 / 40) windSoaked poolWorld)) = 0
   \<and> \<not> isDashing (fst (updatePlayer (\<lambda>i. []) {} dashClock (1 / 40) windSoaked poolWorld))
   \<and> dashUntil (fst (updatePlayer (\<lambda>i. []) {} dashClock (1 / 40) windSoaked poolWorld)) = 0
   \<and> deaths (snd (updatePlayer (\<lambda>i. []) {} dashClock (1 / 40) windSoaked poolWorld)) = 1
   \<and> deaths (snd (updatePlayer (\<lambda>i. []) {''d''} zeroClock (1 / 40) walker poolWorld)) = 0"
proof -
  have ok: "levelOk (level poolWorld)"
    by (simp add: poolWorld_def poolLevel_def levelOk_def)
  have c: "hazardContact {} dashClock (1 / 40) windSoaked poolWorld"
    by (simp add: hazardContact_def eval_defs windSoaked_def poolWorld_def poolLevel_def cong: eval_congs)
  have n: "\<not> hazardContact {''d''} zeroClock (1 / 40) walker poolWorld"
    by (simp add: hazardContact_def eval_defs walker_def poolWorld_def poolLevel_def cong: eval_congs)
  have f: "spawn windSoaked = \<lparr>vec_x = 48, vec_y = 80\<rparr>" "maxAirJumps windSoaked = 0" "deaths poolWorld = 0"
    by (simp_all add: windSoaked_def actor_def poolWorld_def)
  show ?thesis
    using hazard_respawn [OF ok, of "{}" dashClock "1 / 40" windSoaked "\<lambda>i. []"]
      hazard_respawn [OF ok, of "{''d''}" zeroClock "1 / 40" walker "\<lambda>i. []"] c n f
    by simp
qed

text \<open>
  C10. The respawn writes neither cooldown timestamp nor the jump-lock flag: the hazard
  block returns them as it received them. For the whole update with hazard contact, the
  dash cooldown and the jump lock are those the actor had after \<open>moveAndCollide\<close>, and
  an Earth cooldown that is still running is the same after the update.
\<close>

theorem respawn_keeps_cooldowns:
  assumes "levelOk (level wd)"
  shows "(isHazardFor cc (pid q) \<or> isHazardFor bc (pid q) \<longrightarrow>
            dashCooldownUntil (fst (hazardStep cc bc q wq)) = dashCooldownUntil q
          \<and> abilityCooldownUntil (fst (hazardStep cc bc q wq)) = abilityCooldownUntil q
          \<and> jumpLock (fst (hazardStep cc bc q wq)) = jumpLock q)
       \<and> (hazardContact pk clk dt p wd \<longrightarrow>
            dashCooldownUntil (fst (updatePlayer ex pk clk dt p wd)) = dashCooldownUntil (fst (movePhase pk clk dt p wd))
          \<and> jumpLock (fst (updatePlayer ex pk clk dt p wd)) = jumpLock (fst (movePhase pk clk dt p wd))
          \<and> (t_ability clk < abilityCooldownUntil p \<longrightarrow>
               abilityCooldownUntil (fst (updatePlayer ex pk clk dt p wd)) = abilityCooldownUntil p))"
proof -
  let ?mv = "movePhase pk clk dt p wd"
  let ?hz = "hazardStep (tileCharAt (level wd) (vec_x (pos p)) (vec_y (pos p)))
                  (tileCharAt (level wd) (vec_x (pos (fst ?mv))) (vec_y (pos (fst ?mv)) + ph (fst ?mv) / 2 + 2))
                  (fst ?mv) (snd ?mv)"
  let ?jp = "(k_action (controls p) \<noteq> [] \<and> k_action (controls p) \<in> pk) \<and> \<not> prevActionDown wd (pid p)"
  have a: "abilityCooldownUntil (fst (updatePlayer ex pk clk dt p wd))
           = abilityCooldownUntil (fst (abilityStep ?jp clk (fst ?hz) (snd ?hz)))"
    by (simp add: updatePlayer_def Let_def exitStep_def footstepStep_def)
  have c: "abilityCooldownUntil (fst ?hz) = abilityCooldownUntil p"
    by (simp add: hazardStep_def)
  have b: "t_ability clk < abilityCooldownUntil p \<Longrightarrow>
           abilityCooldownUntil (fst (abilityStep ?jp clk (fst ?hz) (snd ?hz))) = abilityCooldownUntil p"
    using c by (simp add: abilityStep_def Let_def split_beta)
  obtain a' n e where f: "fst (updatePlayer ex pk clk dt p wd)
       = (fst ?hz)\<lparr>abilityCooldownUntil := a', nextStepFxTime := n, exitReached := e\<rparr>"
    using updatePlayer_after_hazard(1) [of ex pk clk dt p wd] by blast
  have h: "dashCooldownUntil (fst (updatePlayer ex pk clk dt p wd)) = dashCooldownUntil (fst ?mv)"
       "jumpLock (fst (updatePlayer ex pk clk dt p wd)) = jumpLock (fst ?mv)"
    unfolding f by (simp_all add: hazardStep_def)
  show ?thesis
    using a b h by (simp add: hazardStep_def)
qed

theorem respawn_keeps_cooldowns_witness:
  "dashCooldownUntil (fst (hazardStep (Some CHR ''~'') None windSoaked poolWorld)) = 8000
   \<and> jumpLock (fst (hazardStep (Some CHR ''~'') None windSoaked poolWorld))
   \<and> dashCooldownUntil (fst (updatePlayer (\<lambda>i. []) {} dashClock (1 / 40) windSoaked poolWorld)) = 8000
   \<and> jumpLock (fst (updatePlayer (\<lambda>i. []) {} dashClock (1 / 40) windSoaked poolWorld))
   \<and> abilityCooldownUntil (fst (updatePlayer (\<lambda>i. []) {''ArrowDown''} dashClock (1 / 40) earthSoaked poolWorld)) = 9000"
proof -
  have ok: "levelOk (level poolWorld)"
    by (simp add: poolWorld_def poolLevel_def levelOk_def)
  have c: "hazardContact {} dashClock (1 / 40) windSoaked poolWorld"
    by (simp add: hazardContact_def eval_defs windSoaked_def poolWorld_def poolLevel_def cong: eval_congs)
  have c': "hazardContact {''ArrowDown''} dashClock (1 / 40) earthSoaked poolWorld"
    by (simp add: hazardContact_def eval_defs earthSoaked_def poolWorld_def poolLevel_def cong: eval_congs)
  have z: "isHazardFor (Some CHR ''~'') (pid windSoaked)"
    by (simp add: isHazardFor_def)
  have m: "dashCooldownUntil (fst (movePhase {} dashClock (1 / 40) windSoaked poolWorld)) = 8000"
    "jumpLock (fst (movePhase {} dashClock (1 / 40) windSoaked poolWorld))"
    by (simp_all add: eval_defs windSoaked_def poolWorld_def poolLevel_def cong: eval_congs)
  have f: "t_ability dashClock < abilityCooldownUntil earthSoaked" "abilityCooldownUntil earthSoaked = 9000"
    "dashCooldownUntil windSoaked = 8000" "jumpLock windSoaked"
    by (simp_all add: earthSoaked_def windSoaked_def actor_def dashClock_def)
  show ?thesis
    using respawn_keeps_cooldowns [OF ok, of "Some CHR ''~''" windSoaked None poolWorld "{}" dashClock "1 / 40"
        windSoaked "\<lambda>i. []"]
      respawn_keeps_cooldowns [OF ok, of "Some CHR ''~''" windSoaked None poolWorld "{''ArrowDown''}" dashClock "1 / 40"
        earthSoaked "\<lambda>i. []"]
      c c' z m f
    by simp
qed

section \<open>Earth platforms\<close>

lemmas earth_defs = doEarthAction_def earthPlace_def earthEvict_def canPlace_def
  digger_def earthWorld_def earthLevel_def

text \<open>
  C9. In every state of a session the registry is in order: each entry's tile holds the
  earth-platform symbol (and no tile is registered twice). Each operation keeps it so and
  keeps the entries oldest first: the Fire break and the expiry sweep remove entries
  without reordering the rest, a placement appends its entry at the end after writing
  the symbol, and the overflow eviction drops the first entry.
\<close>

theorem registry_invariant:
  "(reachableGame ex g \<longrightarrow> registryOk g)
   \<and> (registryOk wd \<longrightarrow>
        registryOk (doFireAction p wd)
      \<and> subseq (tempPlatforms (doFireAction p wd)) (tempPlatforms wd)
      \<and> registryOk (wd\<lparr>level := doWaterAction (level wd) p\<rparr>)
      \<and> registryOk (snd (doEarthAction now p wd))
      \<and> (fst (doEarthAction now p wd) \<longrightarrow>
           (\<exists>c. tempPlatforms (snd (doEarthAction now p wd))
                 = (if 12 \<le> length (tempPlatforms wd) then tl (tempPlatforms wd) else tempPlatforms wd) @ [c]))
      \<and> (\<not> fst (doEarthAction now p wd) \<longrightarrow>
           tempPlatforms (snd (doEarthAction now p wd)) = tempPlatforms wd)
      \<and> registryOk (wd\<lparr>tempPlatforms := fst (expirePlatforms now (tempPlatforms wd) (level wd)),
                        level := snd (expirePlatforms now (tempPlatforms wd) (level wd))\<rparr>)
      \<and> fst (expirePlatforms now (tempPlatforms wd) (level wd))
          = filter (\<lambda>tp. now < expiresAt tp) (tempPlatforms wd))"
proof -
  have fire: "subseq (tempPlatforms (doFireAction p wd)) (tempPlatforms wd)"
    by (simp add: doFireAction_def Let_def)
  have fail: "\<not> fst (doEarthAction now p wd) \<Longrightarrow> tempPlatforms (snd (doEarthAction now p wd)) = tempPlatforms wd"
    using earthPlace_cases [of now p wd] by (auto simp: doEarthAction_snd)
  have succ: "\<exists>c. tempPlatforms (snd (doEarthAction now p wd))
                 = (if 12 \<le> length (tempPlatforms wd) then tl (tempPlatforms wd) else tempPlatforms wd) @ [c]"
    if "registryOk wd" "fst (doEarthAction now p wd)"
    using earth_success [OF that] by blast
  show ?thesis
    using reachable_registryOk [of ex g] fire fail succ registryOk_doFireAction(1) [of wd p]
      registryOk_water [of wd p] registryOk_doEarthAction [of wd now p] registryOk_sweep [of wd now]
    by (simp add: expirePlatforms_fst)
qed

theorem registry_invariant_witness:
  "registryOk (loop (\<lambda>i. []) {''ArrowDown''} (\<lambda>i. dashClock) 5000 5025 earthScene)
   \<and> tempPlatforms (loop (\<lambda>i. []) {''ArrowDown''} (\<lambda>i. dashClock) 5000 5025 earthScene)
       = [\<lparr>tp_tx = 1, tp_ty = 2, expiresAt = 12100\<rparr>]
   \<and> tileAt (level (loop (\<lambda>i. []) {''ArrowDown''} (\<lambda>i. dashClock) 5000 5025 earthScene)) 1 2 = Some CHR ''X''"
proof -
  have "reachableGame (\<lambda>i. []) earthScene"
    by (rule reachableGame.start) (simp_all add: earthScene_def earthLevel_def levelOk_def)
  then have r: "reachableGame (\<lambda>i. []) (loop (\<lambda>i. []) {''ArrowDown''} (\<lambda>i. dashClock) 5000 5025 earthScene)"
    by (rule reachableGame.frame)
  have t: "tempPlatforms (loop (\<lambda>i. []) {''ArrowDown''} (\<lambda>i. dashClock) 5000 5025 earthScene)
       = [\<lparr>tp_tx = 1, tp_ty = 2, expiresAt = 12100\<rparr>]"
    by (simp add: eval_defs earth_defs earthScene_def cong: eval_congs list.case_cong_weak)
  have "registryOk (loop (\<lambda>i. []) {''ArrowDown''} (\<lambda>i. dashClock) 5000 5025 earthScene)"
    using registry_invariant [of "\<lambda>i. []" "loop (\<lambda>i. []) {''ArrowDown''} (\<lambda>i. dashClock) 5000 5025 earthScene"
        earthWorld "digger 1" 0] r
    by simp
  then show ?thesis
    using t by (simp add: registryOk_def)
qed

text \<open>
  C5. An Earth actor whose cooldown is still running leaves registry, level and cooldown
  timestamp untouched by its update. In the ability block the timestamp changes only when
  the action was pressed, the cooldown has elapsed and \<open>doEarthAction\<close> placed a platform,
  and then to the clock reading plus 4000 ms; a call that places nothing returns the world
  as it was. Thirteen successive successful placements from an empty registry leave
  twelve entries and the tile of the first placement empty.
\<close>

theorem earth_cooldown_and_cap:
  assumes "registryOk wd"
  shows "(pid p = 3 \<and> t_ability clk < abilityCooldownUntil p \<longrightarrow>
            tempPlatforms (snd (updatePlayer ex pk clk dt p wd)) = tempPlatforms wd
          \<and> level (snd (updatePlayer ex pk clk dt p wd)) = level wd
          \<and> abilityCooldownUntil (fst (updatePlayer ex pk clk dt p wd)) = abilityCooldownUntil p)
       \<and> (pid p = 3 \<longrightarrow>
            abilityCooldownUntil (fst (abilityStep jp clk p wd))
            = (if jp \<and> abilityCooldownUntil p \<le> t_ability clk \<and> fst (doEarthAction (t_earth clk) p wd)
               then t_ability clk + 4000 else abilityCooldownUntil p))
       \<and> (\<not> fst (doEarthAction now p wd) \<longrightarrow> snd (doEarthAction now p wd) = wd)
       \<and> (tempPlatforms wd = [] \<and> length ins = 13 \<and> placeAll ins wd \<noteq> None \<longrightarrow>
            length (tempPlatforms (the (placeAll ins wd))) = 12
          \<and> tileAt (level (the (placeAll ins wd)))
               (tp_tx (hd (tempPlatforms (snd (doEarthAction (fst (hd ins)) (snd (hd ins)) wd)))))
               (tp_ty (hd (tempPlatforms (snd (doEarthAction (fst (hd ins)) (snd (hd ins)) wd)))))
             = Some CHR ''.'')"
proof -
  let ?mv = "movePhase pk clk dt p wd"
  let ?hz = "hazardStep (tileCharAt (level wd) (vec_x (pos p)) (vec_y (pos p)))
                  (tileCharAt (level wd) (vec_x (pos (fst ?mv))) (vec_y (pos (fst ?mv)) + ph (fst ?mv) / 2 + 2))
                  (fst ?mv) (snd ?mv)"
  let ?jp = "(k_action (controls p) \<noteq> [] \<and> k_action (controls p) \<in> pk) \<and> \<not> prevActionDown wd (pid p)"
  have hzf: "pid (fst ?hz) = pid p" "abilityCooldownUntil (fst ?hz) = abilityCooldownUntil p"
    by (simp_all add: hazardStep_def)
  have blocked: "abilityStep ?jp clk (fst ?hz) (snd ?hz) = (fst ?hz, snd ?hz)"
    if "pid p = 3" "t_ability clk < abilityCooldownUntil p"
    using that hzf by (simp add: abilityStep_def Let_def)
  have A: "tempPlatforms (snd (updatePlayer ex pk clk dt p wd)) = tempPlatforms wd
          \<and> level (snd (updatePlayer ex pk clk dt p wd)) = level wd
          \<and> abilityCooldownUntil (fst (updatePlayer ex pk clk dt p wd)) = abilityCooldownUntil p"
    if "pid p = 3" "t_ability clk < abilityCooldownUntil p"
    using blocked [OF that] hzf
    by (simp add: updatePlayer_def Let_def exitStep_def footstepStep_def)
  have B: "abilityCooldownUntil (fst (abilityStep jp clk p wd))
            = (if jp \<and> abilityCooldownUntil p \<le> t_ability clk \<and> fst (doEarthAction (t_earth clk) p wd)
               then t_ability clk + 4000 else abilityCooldownUntil p)"
    if "pid p = 3"
    using that by (simp add: abilityStep_def Let_def split_beta EARTH_COOLDOWN_def)
  have C: "snd (doEarthAction now p wd) = wd" if "\<not> fst (doEarthAction now p wd)"
    using that earthPlace_cases [of now p wd] by (auto simp: doEarthAction_snd)
  have D: "length (tempPlatforms (the (placeAll ins wd))) = 12
          \<and> tileAt (level (the (placeAll ins wd)))
               (tp_tx (hd (tempPlatforms (snd (doEarthAction (fst (hd ins)) (snd (hd ins)) wd)))))
               (tp_ty (hd (tempPlatforms (snd (doEarthAction (fst (hd ins)) (snd (hd ins)) wd)))))
             = Some CHR ''.''"
    if "tempPlatforms wd = []" "length ins = 13" "placeAll ins wd \<noteq> None"
  proof -
    from that(3) obtain wd' where w: "placeAll ins wd = Some wd'" by auto
    from thirteen_placements [OF assms that(1,2) w] show ?thesis by (simp add: w)
  qed
  show ?thesis
    using A B C D by blast
qed

theorem earth_cooldown_and_cap_witness:
  "tempPlatforms (snd (updatePlayer (\<lambda>i. []) {''ArrowDown''} dashClock (1 / 40)
       ((digger 1)\<lparr>abilityCooldownUntil := 9000\<rparr>) earthWorld)) = []
   \<and> abilityCooldownUntil (fst (updatePlayer (\<lambda>i. []) {''ArrowDown''} dashClock (1 / 40)
       ((digger 1)\<lparr>abilityCooldownUntil := 9000\<rparr>) earthWorld)) = 9000
   \<and> abilityCooldownUntil (fst (abilityStep True dashClock (digger 1) earthWorld)) = 9100
   \<and> length (tempPlatforms (the (placeAll thirteen earthWorld))) = 12
   \<and> tileAt (level (the (placeAll thirteen earthWorld))) 1 2 = Some CHR ''.''"
proof -
  have ok: "registryOk earthWorld"
    by (simp add: registryOk_def earthWorld_def earthLevel_def levelOk_def regCells_def)
  have h: "pid ((digger 1)\<lparr>abilityCooldownUntil := 9000\<rparr>) = 3"
    "t_ability dashClock < abilityCooldownUntil ((digger 1)\<lparr>abilityCooldownUntil := 9000\<rparr>)"
    "pid (digger 1) = 3" "abilityCooldownUntil (digger 1) \<le> t_ability dashClock"
    "tempPlatforms earthWorld = []" "length thirteen = 13"
    by (simp_all add: digger_def actor_def dashClock_def earthWorld_def thirteen_def)
  have pl: "fst (doEarthAction (t_earth dashClock) (digger 1) earthWorld)"
    by (simp add: eval_defs earth_defs cong: eval_congs list.case_cong_weak)
  have first: "hd (tempPlatforms (snd (doEarthAction (fst (hd thirteen)) (snd (hd thirteen)) earthWorld)))
               = \<lparr>tp_tx = 1, tp_ty = 2, expiresAt = 8000\<rparr>"
    by (simp add: thirteen_def eval_defs earth_defs cong: eval_congs list.case_cong_weak)
  show ?thesis
    using earth_cooldown_and_cap [OF ok, of "(digger 1)\<lparr>abilityCooldownUntil := 9000\<rparr>" dashClock
        "\<lambda>i. []" "{''ArrowDown''}" "1 / 40" True 0 thirteen]
      earth_cooldown_and_cap [OF ok, of "digger 1" dashClock "\<lambda>i. []" "{}" 0 True 0 "[]"]
      h pl thirteen_run first
    by (simp add: dashClock_def)
qed

section \<open>Flood fill\<close>

lemma holeReach_hole: "c \<in> holeReach lv S \<Longrightarrow> tileAt lv (fst c) (snd c) = Some CHR ''O''"
  by (induction rule: holeReach.induct) simp_all

lemma floodVisit_fold:
  "fold (floodVisit lv c) ds (seen, q) = (seen', q') \<Longrightarrow>
     seen \<subseteq> seen' \<and> set q' = set q \<union> (seen' - seen)
   \<and> seen' \<subseteq> seen \<union> {n. \<exists>d \<in> set ds. n = (fst c + fst d, snd c + snd d)
                          \<and> tileAt lv (fst c + fst d) (snd c + snd d) = Some CHR ''O''}
   \<and> (\<forall>d \<in> set ds. tileAt lv (fst c + fst d) (snd c + snd d) = Some CHR ''O''
         \<longrightarrow> (fst c + fst d, snd c + snd d) \<in> seen')"
proof (induction ds arbitrary: seen q)
  case Nil
  then show ?case by auto
next
  case (Cons d ds)
  obtain s1 q1 where v: "floodVisit lv c d (seen, q) = (s1, q1)"
    by (cases "floodVisit lv c d (seen, q)")
  from Cons.prems v have f: "fold (floodVisit lv c) ds (s1, q1) = (seen', q')" by simp
  note ih = Cons.IH [OF f]
  let ?n = "(fst c + fst d, snd c + snd d)"
  show ?case
  proof (cases "?n \<notin> seen \<and> tileAt lv (fst c + fst d) (snd c + snd d) = Some CHR ''O''")
    case True
    with v have e: "s1 = insert ?n seen" "q1 = q @ [?n]"
      by (auto simp: floodVisit_def Let_def)
    show ?thesis
      using ih True unfolding e by auto
  next
    case False
    with v have e: "s1 = seen" "q1 = q"
      by (auto simp: floodVisit_def Let_def)
    show ?thesis
      using ih False unfolding e by auto
  qed
qed


lemma floodInv_closed:
  assumes inv: "floodInv lv0 S lv [] seen n C"
  shows "C = holeReach lv0 S"
proof -
  from inv have sc: "seen = C" and sub: "C \<subseteq> holeReach lv0 S"
    and seeds: "S \<inter> {c. tileAt lv0 (fst c) (snd c) = Some CHR ''O''} \<subseteq> seen"
    and cl: "\<forall>c \<in> C. \<forall>d \<in> set dirs8. tileAt lv0 (fst c + fst d) (snd c + snd d) = Some CHR ''O''
             \<longrightarrow> (fst c + fst d, snd c + snd d) \<in> seen"
    by (auto simp: floodInv_def)
  have "c \<in> C" if "c \<in> holeReach lv0 S" for c
    using that
  proof (induction rule: holeReach.induct)
    case (seed c)
    then show ?case using seeds sc by auto
  next
    case (step c d)
    then show ?case using cl sc by auto
  qed
  then show ?thesis using sub by auto
qed

lemma floodInv_skip:
  assumes inv: "floodInv lv0 S lv q seen n C" and ne: "q \<noteq> []"
    and no: "tileAt lv (fst (hd q)) (snd (hd q)) \<noteq> Some CHR ''O''"
  shows "floodInv lv0 S lv (tl q) seen n C"
proof -
  from ne have q: "q = hd q # tl q" by simp
  from inv have "hd q \<in> holeReach lv0 S"
    using q by (metis floodInv_def list.set_intros(1) subsetD)
  then have o: "tileAt lv0 (fst (hd q)) (snd (hd q)) = Some CHR ''O''"
    by (rule holeReach_hole)
  from inv have rd: "tileAt lv (fst (hd q)) (snd (hd q))
      = (if (fst (hd q), snd (hd q)) \<in> C then Some CHR ''W'' else tileAt lv0 (fst (hd q)) (snd (hd q)))"
    by (simp add: floodInv_def)
  from no o rd have inC: "hd q \<in> C" by (auto split: if_splits)
  have tlsub: "set (tl q) \<subseteq> set q" using ne by (metis list.set_sel(2) subsetI)
  have cov: "seen \<subseteq> C \<union> set (tl q)"
  proof
    fix x assume "x \<in> seen"
    with inv have "x \<in> C \<or> x \<in> set q" by (auto simp: floodInv_def)
    then show "x \<in> C \<union> set (tl q)"
      using inC q by (metis UnCI set_ConsD)
  qed
  show ?thesis
    using inv tlsub cov unfolding floodInv_def by auto
qed

lemma floodInv_convert:
  assumes inv: "floodInv lv0 S lv q seen n C" and ne: "q \<noteq> []" and lt: "n < maxFill"
    and o: "tileAt lv (fst (hd q)) (snd (hd q)) = Some CHR ''O''"
    and f: "fold (floodVisit (setTile lv (fst (hd q)) (snd (hd q)) CHR ''W'') (hd q)) dirs8 (seen, tl q) = (seen', q')"
  shows "floodInv lv0 S (setTile lv (fst (hd q)) (snd (hd q)) CHR ''W'') q' seen' (Suc n) (insert (hd q) C)"
proof -
  let ?c = "hd q"
  let ?lv = "setTile lv (fst ?c) (snd ?c) CHR ''W''"
  from ne have q: "q = ?c # tl q" by simp
  from inv have lok: "levelOk lv" and fin: "finite C" and card: "card C = n"
    and Cs: "C \<subseteq> seen" and sR: "seen \<subseteq> holeReach lv0 S"
    and seeds: "S \<inter> {c. tileAt lv0 (fst c) (snd c) = Some CHR ''O''} \<subseteq> seen"
    and qs: "set q \<subseteq> seen" and cov: "seen \<subseteq> C \<union> set q"
    and rd: "\<And>x y. tileAt lv x y = (if (x, y) \<in> C then Some CHR ''W'' else tileAt lv0 x y)"
    and cl: "\<forall>c \<in> C. \<forall>d \<in> set dirs8. tileAt lv0 (fst c + fst d) (snd c + snd d) = Some CHR ''O''
             \<longrightarrow> (fst c + fst d, snd c + snd d) \<in> seen"
    by (auto simp: floodInv_def)
  have cseen: "?c \<in> seen" using qs q by (metis list.set_intros(1) subsetD)
  have cR: "?c \<in> holeReach lv0 S" using cseen sR by auto
  have cC: "?c \<notin> C"
  proof
    assume "?c \<in> C"
    then have "tileAt lv (fst ?c) (snd ?c) = Some CHR ''W''" using rd [of "fst ?c" "snd ?c"] by simp
    with o show False by simp
  qed
  have rd': "tileAt ?lv x y = (if (x, y) \<in> insert ?c C then Some CHR ''W'' else tileAt lv0 x y)" for x y
  proof -
    have "tileAt ?lv x y = (if x = fst ?c \<and> y = snd ?c then Some CHR ''W'' else tileAt lv x y)"
      by (rule tileAt_setTile [OF lok o]) simp
    then show ?thesis using rd [of x y] by (auto simp: prod_eq_iff)
  qed
  note fv = floodVisit_fold [OF f]
  from fv have mono: "seen \<subseteq> seen'" and q': "set q' = set (tl q) \<union> (seen' - seen)"
    and new: "seen' \<subseteq> seen \<union> {n. \<exists>d \<in> set dirs8. n = (fst ?c + fst d, snd ?c + snd d)
                          \<and> tileAt ?lv (fst ?c + fst d) (snd ?c + snd d) = Some CHR ''O''}"
    and all: "\<forall>d \<in> set dirs8. tileAt ?lv (fst ?c + fst d) (snd ?c + snd d) = Some CHR ''O''
         \<longrightarrow> (fst ?c + fst d, snd ?c + snd d) \<in> seen'"
    by auto
  have tlsub: "set (tl q) \<subseteq> set q" using ne by (metis list.set_sel(2) subsetI)
  have sR': "seen' \<subseteq> holeReach lv0 S"
  proof
    fix x assume "x \<in> seen'"
    with new have "x \<in> seen \<or> (\<exists>d \<in> set dirs8. x = (fst ?c + fst d, snd ?c + snd d)
                          \<and> tileAt ?lv (fst ?c + fst d) (snd ?c + snd d) = Some CHR ''O'')"
      by auto
    then show "x \<in> holeReach lv0 S"
    proof
      assume "x \<in> seen" then show ?thesis using sR by auto
    next
      assume "\<exists>d \<in> set dirs8. x = (fst ?c + fst d, snd ?c + snd d)
                          \<and> tileAt ?lv (fst ?c + fst d) (snd ?c + snd d) = Some CHR ''O''"
      then obtain d where d: "d \<in> set dirs8" "x = (fst ?c + fst d, snd ?c + snd d)"
        "tileAt ?lv (fst ?c + fst d) (snd ?c + snd d) = Some CHR ''O''" by blast
      from d(3) have "tileAt lv0 (fst ?c + fst d) (snd ?c + snd d) = Some CHR ''O''"
        using rd' [of "fst ?c + fst d" "snd ?c + snd d"] by (auto split: if_splits)
      from holeReach.step [OF cR d(1) this] show ?thesis using d(2) by simp
    qed
  qed
  have cl': "\<forall>c \<in> insert ?c C. \<forall>d \<in> set dirs8. tileAt lv0 (fst c + fst d) (snd c + snd d) = Some CHR ''O''
             \<longrightarrow> (fst c + fst d, snd c + snd d) \<in> seen'"
  proof (intro ballI impI)
    fix c d assume c: "c \<in> insert ?c C" and d: "d \<in> set dirs8"
      and h: "tileAt lv0 (fst c + fst d) (snd c + snd d) = Some CHR ''O''"
    show "(fst c + fst d, snd c + snd d) \<in> seen'"
    proof (cases "c = ?c")
      case False
      with c have "c \<in> C" by simp
      with cl d h have "(fst c + fst d, snd c + snd d) \<in> seen" by blast
      then show ?thesis using mono by auto
    next
      case True
      show ?thesis
      proof (cases "(fst c + fst d, snd c + snd d) \<in> insert ?c C")
        case True
        then show ?thesis using Cs cseen mono by auto
      next
        case False
        then have "tileAt ?lv (fst c + fst d) (snd c + snd d) = Some CHR ''O''"
          using rd' [of "fst c + fst d" "snd c + snd d"] h by simp
        then show ?thesis using all d \<open>c = ?c\<close> by auto
      qed
    qed
  qed
  have cov': "seen' \<subseteq> insert ?c C \<union> set q'"
  proof
    fix x assume x: "x \<in> seen'"
    show "x \<in> insert ?c C \<union> set q'"
    proof (cases "x \<in> seen")
      case False
      then show ?thesis using x q' by auto
    next
      case True
      with cov have "x \<in> C \<or> x \<in> set q" by auto
      then show ?thesis using q q' by (metis UnCI insertCI set_ConsD)
    qed
  qed
  have "levelOk ?lv" using lok by simp
  moreover have "card (insert ?c C) = Suc n" using fin cC card by simp
  moreover have "Suc n \<le> maxFill" using lt by simp
  moreover have "insert ?c C \<subseteq> seen'" using Cs cseen mono by auto
  moreover have "S \<inter> {c. tileAt lv0 (fst c) (snd c) = Some CHR ''O''} \<subseteq> seen'" using seeds mono by auto
  moreover have "set q' \<subseteq> seen'" using q' qs tlsub mono by auto
  ultimately show ?thesis
    unfolding floodInv_def using fin sR' cov' rd' cl' by simp
qed

lemma floodLoop_correct:
  "floodInv lv0 S lv q seen n C \<Longrightarrow>
   \<exists>C'. C' \<subseteq> holeReach lv0 S \<and> finite C' \<and> card C' = snd (floodLoop lv q seen n)
       \<and> snd (floodLoop lv q seen n) \<le> maxFill
       \<and> (\<forall>x y. tileAt (fst (floodLoop lv q seen n)) x y
                 = (if (x, y) \<in> C' then Some CHR ''W'' else tileAt lv0 x y))
       \<and> (snd (floodLoop lv q seen n) < maxFill \<longrightarrow> C' = holeReach lv0 S)"
proof (induction lv q seen n arbitrary: C rule: floodLoop.induct)
  case (1 lv q seen n)
  show ?case
  proof (cases "q \<noteq> [] \<and> n < maxFill")
    case False
    then have r: "floodLoop lv q seen n = (lv, n)" by (auto simp: floodLoop.simps [of lv q seen n])
    have "n < maxFill \<longrightarrow> C = holeReach lv0 S"
    proof
      assume "n < maxFill"
      with False have "q = []" by simp
      with "1.prems" show "C = holeReach lv0 S" using floodInv_closed by blast
    qed
    moreover from "1.prems" have "C \<subseteq> holeReach lv0 S" by (auto simp: floodInv_def)
    ultimately show ?thesis
      using "1.prems" unfolding r by (intro exI [of _ C]) (simp add: floodInv_def)
  next
    case True
    show ?thesis
    proof (cases "tileAt lv (fst (hd q)) (snd (hd q)) \<noteq> Some CHR ''O''")
      case t: True
      have un: "floodLoop lv q seen n = floodLoop lv (tl q) seen n"
        using True t by (simp add: floodLoop.simps [of lv q seen n])
      from True have "q \<noteq> []" by simp
      from "1.IH"(1) [OF True refl refl t floodInv_skip [OF "1.prems" this t]]
      show ?thesis unfolding un .
    next
      case f: False
      let ?lv = "setTile lv (fst (hd q)) (snd (hd q)) CHR ''W''"
      let ?sq = "fold (floodVisit ?lv (hd q)) dirs8 (seen, tl q)"
      have un: "floodLoop lv q seen n = floodLoop ?lv (snd ?sq) (fst ?sq) (Suc n)"
        using True f by (simp add: floodLoop.simps [of lv q seen n] Let_def)
      from True have ne: "q \<noteq> []" and lt: "n < maxFill" by simp_all
      from f have o: "tileAt lv (fst (hd q)) (snd (hd q)) = Some CHR ''O''" by simp
      have "?sq = (fst ?sq, snd ?sq)" by simp
      from floodInv_convert [OF "1.prems" ne lt o this]
      have inv: "floodInv lv0 S ?lv (snd ?sq) (fst ?sq) (Suc n) (insert (hd q) C)" .
      from "1.IH"(2) [OF True refl refl f refl refl inv]
      show ?thesis unfolding un .
    qed
  qed
qed


lemma holeReach_finite:
  assumes "levelOk lv"
  shows "finite (holeReach lv S)"
proof -
  have "holeReach lv S \<subseteq> {0..<lvl_w lv} \<times> {0..<lvl_h lv}"
  proof
    fix c assume "c \<in> holeReach lv S"
    then have "tileAt lv (fst c) (snd c) = Some CHR ''O''" by (rule holeReach_hole)
    from tileAt_in_row [OF this] show "c \<in> {0..<lvl_w lv} \<times> {0..<lvl_h lv}"
      by (cases c) auto
  qed
  then show ?thesis by (rule finite_subset) simp
qed

lemma waterSeeds_iff:
  "c \<in> set (waterSeeds lv p) \<longleftrightarrow>
     tileAt lv (fst c) (snd c) = Some CHR ''O''
   \<and> \<bar>fst c - fst (worldToTile (vec_x (pos p)) (vec_y (pos p)) (tileSize lv))\<bar> \<le> 1
   \<and> \<bar>snd c - snd (worldToTile (vec_x (pos p)) (vec_y (pos p)) (tileSize lv))\<bar> \<le> 1"
proof -
  obtain a b where w: "worldToTile (vec_x (pos p)) (vec_y (pos p)) (tileSize lv) = (a, b)"
    by (cases "worldToTile (vec_x (pos p)) (vec_y (pos p)) (tileSize lv)")
  obtain x y where c: "c = (x, y)" by (cases c)
  have X: "\<bar>x - a\<bar> \<le> 1 \<longleftrightarrow> x = a - 1 \<or> x = a \<or> x = a + 1"
    and Y: "\<bar>y - b\<bar> \<le> 1 \<longleftrightarrow> y = b - 1 \<or> y = b \<or> y = b + 1"
    by linarith+
  have W: "(x, y) \<in> set (map (\<lambda>d. (a + fst d, b + snd d)) window3x3) \<longleftrightarrow>
           (x = a - 1 \<or> x = a \<or> x = a + 1) \<and> (y = b - 1 \<or> y = b \<or> y = b + 1)"
    unfolding window3x3_def by simp blast
  have m: "c \<in> set (waterSeeds lv p) \<longleftrightarrow>
        tileAt lv x y = Some CHR ''O'' \<and> (x, y) \<in> set (map (\<lambda>d. (a + fst d, b + snd d)) window3x3)"
    unfolding waterSeeds_def Let_def w c by (simp add: conj_commute del: set_map)
  have "c \<in> set (waterSeeds lv p) \<longleftrightarrow>
        tileAt lv x y = Some CHR ''O''
        \<and> (x = a - 1 \<or> x = a \<or> x = a + 1) \<and> (y = b - 1 \<or> y = b \<or> y = b + 1)"
    using m unfolding W .
  then show ?thesis
    by (simp add: w c X Y)
qed

text \<open>
  C6. A Water action with no dark hole in the 3 by 3 window around the actor's centre tile
  returns the level unchanged. In every case the action keeps the shape of the level and
  there is a set \<open>C\<close> of tiles, all of them dark holes reachable from the seeds, that it
  turns into water, every other tile reading as before; \<open>C\<close> has at most 2000 members and
  is the whole reachable set when that set has fewer than 2000 members.
\<close>

theorem water_flood_fill:
  assumes "levelOk lv"
  shows "(waterSeeds lv p = [] \<longrightarrow> doWaterAction lv p = lv)
       \<and> sameShape lv (doWaterAction lv p)
       \<and> (\<exists>C. C \<subseteq> holeReach lv (set (waterSeeds lv p))
              \<and> card C \<le> 2000
              \<and> (card (holeReach lv (set (waterSeeds lv p))) < 2000 \<longrightarrow>
                   C = holeReach lv (set (waterSeeds lv p)))
              \<and> (\<forall>x y. tileAt (doWaterAction lv p) x y
                      = (if (x, y) \<in> C then Some CHR ''W'' else tileAt lv x y))
              \<and> (\<forall>c \<in> C. tileAt lv (fst c) (snd c) = Some CHR ''O''))"
proof -
  let ?S = "set (waterSeeds lv p)"
  let ?R = "holeReach lv ?S"
  have holes: "\<forall>c \<in> C. tileAt lv (fst c) (snd c) = Some CHR ''O''" if "C \<subseteq> ?R" for C
    using that holeReach_hole by blast
  have fl: "\<exists>C. C \<subseteq> ?R \<and> card C \<le> 2000 \<and> (card ?R < 2000 \<longrightarrow> C = ?R)
              \<and> (\<forall>x y. tileAt (doWaterAction lv p) x y
                      = (if (x, y) \<in> C then Some CHR ''W'' else tileAt lv x y))
              \<and> (\<forall>c \<in> C. tileAt lv (fst c) (snd c) = Some CHR ''O'')"
  proof (cases "waterSeeds lv p = []")
    case True
    have "c \<notin> ?R" for c
    proof
      assume "c \<in> ?R"
      then show False using True by (induction rule: holeReach.induct) simp_all
    qed
    then have e: "?R = {}" by auto
    have u: "doWaterAction lv p = lv" using True by (simp add: doWaterAction_def)
    show ?thesis
      unfolding e u by (intro exI [of _ "{}"]) simp
  next
    case False
    have so: "tileAt lv (fst c) (snd c) = Some CHR ''O''" if "c \<in> ?S" for c
      using that by (simp add: waterSeeds_iff)
    have inv: "floodInv lv ?S lv (waterSeeds lv p) ?S 0 {}"
      unfolding floodInv_def using assms so by (auto intro: holeReach.seed)
    from floodLoop_correct [OF inv]
    obtain C where C: "C \<subseteq> ?R" "finite C" "card C = snd (floodLoop lv (waterSeeds lv p) ?S 0)"
      "snd (floodLoop lv (waterSeeds lv p) ?S 0) \<le> maxFill"
      "\<forall>x y. tileAt (fst (floodLoop lv (waterSeeds lv p) ?S 0)) x y
                 = (if (x, y) \<in> C then Some CHR ''W'' else tileAt lv x y)"
      "snd (floodLoop lv (waterSeeds lv p) ?S 0) < maxFill \<longrightarrow> C = ?R"
      by blast
    have d: "doWaterAction lv p = fst (floodLoop lv (waterSeeds lv p) ?S 0)"
      using False by (simp add: doWaterAction_def Let_def)
    have "card C \<le> card ?R"
      using C(1) holeReach_finite [OF assms] by (simp add: card_mono)
    then have full: "card ?R < 2000 \<longrightarrow> C = ?R"
      using C(3,6) by (simp add: maxFill_def)
    show ?thesis
      using C(1,3,4,5) full holes [OF C(1)] unfolding d
      by (intro exI [of _ C]) (simp add: maxFill_def)
  qed
  have z: "waterSeeds lv p = [] \<longrightarrow> doWaterAction lv p = lv"
    by (simp add: doWaterAction_def)
  show ?thesis
    using z fl sameShape_doWaterAction [of lv p] by blast
qed

lemmas water_defs = doWaterAction_def waterSeeds_def window3x3_def dirs8_def floodVisit_def maxFill_def
  holeLevel_def swimmer_def dryActor_def

theorem water_flood_fill_witness:
  "tiles (doWaterAction holeLevel swimmer) = [''#########'', ''#.WW.O..#'', ''#W...O..#'', ''#########'']
   \<and> doWaterAction holeLevel dryActor = holeLevel
   \<and> (3, 1) \<in> holeReach holeLevel (set (waterSeeds holeLevel swimmer))"
proof -
  have ok: "levelOk holeLevel"
    by (simp add: holeLevel_def levelOk_def)
  have ev: "tiles (doWaterAction holeLevel swimmer) = [''#########'', ''#.WW.O..#'', ''#W...O..#'', ''#########'']"
    by (simp add: water_defs eval_defs floodLoop.simps cong: eval_congs)
  have dry: "waterSeeds holeLevel dryActor = []"
    by (simp add: water_defs eval_defs cong: eval_congs)
  have a: "tileAt (doWaterAction holeLevel swimmer) 3 1 = Some CHR ''W''"
    "tileAt holeLevel 3 1 = Some CHR ''O''"
    by (simp_all add: water_defs eval_defs floodLoop.simps cong: eval_congs)
  from water_flood_fill [OF ok, of swimmer]
  obtain C where C: "C \<subseteq> holeReach holeLevel (set (waterSeeds holeLevel swimmer))"
    "\<forall>x y. tileAt (doWaterAction holeLevel swimmer) x y
                      = (if (x, y) \<in> C then Some CHR ''W'' else tileAt holeLevel x y)"
    by blast
  from C(2) [rule_format, of 3 1] a have "(3, 1) \<in> C" by (auto split: if_splits)
  then have r: "(3, 1) \<in> holeReach holeLevel (set (waterSeeds holeLevel swimmer))"
    using C(1) by auto
  show ?thesis
    using ev r water_flood_fill [OF ok, of dryActor] dry by simp
qed

end
